theory Spec2Isabelle
  imports Complex_Main
begin

section \<open>The Strava to calendar feed endpoint\<close>

text \<open>
  The program is one serverless handler: it exchanges a refresh token for an access
  token, pages through the athlete's activities, keeps those whose sport is allowed,
  turns each one into a VEVENT block and sends the blocks inside a VCALENDAR envelope.
  Any exception on the way is caught and answered with a one-event error calendar.

  JavaScript strings are modelled as \<^typ>\<open>string\<close>: a character is a code unit below
  256. The operations of the program that look at single characters (escaping,
  splitting, joining) treat every other code unit as they treat a plain letter.
\<close>

subsection \<open>Characters and strings\<close>

definition BSL :: char where
  "BSL = CHR 0x5C"

definition LF :: char where
  "LF = CHR 0x0A"

definition CR :: char where
  "CR = CHR 0x0D"

definition CRLF :: string where
  "CRLF = [CR, LF]"

text \<open>
  \<^verbatim>\<open>s.replace(/c/g, r)\<close> for a pattern that is one literal character: every occurrence
  of the character is replaced, in one pass from left to right.
\<close>

definition replaceAll :: "char \<Rightarrow> string \<Rightarrow> string \<Rightarrow> string" where
  "replaceAll p r s = concat (map (\<lambda>c. if c = p then r else [c]) s)"

text \<open>\<^verbatim>\<open>xs.join(sep)\<close>: the empty array gives the empty string.\<close>

fun join :: "string \<Rightarrow> string list \<Rightarrow> string" where
  "join sep [] = []"
| "join sep [x] = x"
| "join sep (x # y # ys) = x @ sep @ join sep (y # ys)"

subsection \<open>Escaping of calendar text\<close>

text \<open>
  \<^verbatim>\<open>icsEscape\<close> (lines 91-97): four global replacements, the backslash first.
\<close>

definition icsEscape :: "string \<Rightarrow> string" where
  "icsEscape text =
     replaceAll (CHR '';'') [BSL, CHR '';'']
       (replaceAll (CHR '','') [BSL, CHR '','']
         (replaceAll LF [BSL, CHR ''n'']
           (replaceAll BSL [BSL, BSL] text)))"

text \<open>
  The unescaping of TEXT values that the calendar format (RFC 5545, section 3.3.11)
  prescribes to a reader. It is not part of the program; the round-trip property of the
  specification is stated against it. A backslash followed by \<open>n\<close> or \<open>N\<close> is a line
  feed; a backslash followed by any other character is that character.
\<close>

fun standard_unescape :: "string \<Rightarrow> string" where
  "standard_unescape (c # d # s) =
     (if c = BSL then
        (if d = CHR ''n'' \<or> d = CHR ''N'' then LF # standard_unescape s
         else d # standard_unescape s)
      else c # standard_unescape (d # s))"
| "standard_unescape s = s"

subsection \<open>Numbers\<close>

text \<open>
  A JavaScript number is a double: not-a-number, an infinity, or a finite value, taken
  here as the real number it denotes. Comparison, \<^verbatim>\<open>Math.min\<close> and \<^verbatim>\<open>Math.max\<close> do
  not round, so they are exact on this representation. Every comparison with \<open>NaN\<close>
  is false, and \<^verbatim>\<open>Math.min\<close> and \<^verbatim>\<open>Math.max\<close> return \<open>NaN\<close> when an argument is \<open>NaN\<close>.
\<close>

datatype jsnum = NaN | NegInf | Fin real | PosInf

fun js_lt :: "jsnum \<Rightarrow> jsnum \<Rightarrow> bool" where
  "js_lt NaN y = False"
| "js_lt x NaN = False"
| "js_lt (Fin a) (Fin b) = (a < b)"
| "js_lt x NegInf = False"
| "js_lt NegInf y = True"
| "js_lt PosInf y = False"
| "js_lt x PosInf = True"

fun js_ge :: "jsnum \<Rightarrow> jsnum \<Rightarrow> bool" where
  "js_ge NaN y = False"
| "js_ge x NaN = False"
| "js_ge x y = (\<not> js_lt x y)"

fun Math_min :: "jsnum \<Rightarrow> jsnum \<Rightarrow> jsnum" where
  "Math_min NaN y = NaN"
| "Math_min x NaN = NaN"
| "Math_min x y = (if js_lt y x then y else x)"

fun Math_max :: "jsnum \<Rightarrow> jsnum \<Rightarrow> jsnum" where
  "Math_max NaN y = NaN"
| "Math_max x NaN = NaN"
| "Math_max x y = (if js_lt x y then y else x)"

text \<open>\<^verbatim>\<open>v ?? d\<close>, for a value that is either absent or present.\<close>

definition nullish_or :: "'a option \<Rightarrow> 'a \<Rightarrow> 'a" where
  "nullish_or v d = (case v of None \<Rightarrow> d | Some x \<Rightarrow> x)"

text \<open>The length of an array, as a number.\<close>

definition num_of_length :: "nat \<Rightarrow> jsnum" where
  "num_of_length n = Fin (real n)"

text \<open>
  Decimal rendering of whole numbers, as \<^verbatim>\<open>String(n)\<close> and template literals give it
  for the integers that a double holds exactly, those below \<open>2\<^sup>5\<^sup>3\<close> in magnitude. Beyond
  that \<^verbatim>\<open>String(n)\<close> gives the shortest digits that read back as the same double.
\<close>

fun show_nat :: "nat \<Rightarrow> string" where
  "show_nat n =
     (if n < 10 then [''0123456789'' ! n]
      else show_nat (n div 10) @ [''0123456789'' ! (n mod 10)])"

declare show_nat.simps [simp del]

definition show_int :: "int \<Rightarrow> string" where
  "show_int i = (if i < 0 then CHR ''-'' # show_nat (nat (- i)) else show_nat (nat i))"

text \<open>A number that may be \<open>NaN\<close> (\<open>None\<close>), as the getters of a date return it.\<close>

definition show_num :: "int option \<Rightarrow> string" where
  "show_num v = (case v of None \<Rightarrow> ''NaN'' | Some i \<Rightarrow> show_int i)"

text \<open>\<^verbatim>\<open>s.padStart(2, "0")\<close>\<close>

definition padStart2 :: "string \<Rightarrow> string" where
  "padStart2 s = replicate (2 - length s) (CHR ''0'') @ s"

text \<open>
  The remainder operator \<^verbatim>\<open>%\<close> on whole numbers: the result has the sign of the
  dividend.
\<close>

definition js_rem :: "int \<Rightarrow> int \<Rightarrow> int" where
  "js_rem a b = sgn a * (\<bar>a\<bar> mod \<bar>b\<bar>)"

text \<open>\<^verbatim>\<open>Math.round\<close>: the nearest whole number, a tie going up.\<close>

definition Math_round :: "real \<Rightarrow> int" where
  "Math_round x = \<lfloor>x + 1 / 2\<rfloor>"

text \<open>
  \<^verbatim>\<open>x.toFixed(2)\<close> as ECMAScript defines it for \<open>\<bar>x\<bar> < 10\<^sup>2\<^sup>1\<close>: the integer \<open>n\<close> nearest to
  \<open>100 * \<bar>x\<bar>\<close> (the larger one on a tie), written with at least three digits and a
  point before the last two.
\<close>

definition toFixed2 :: "real \<Rightarrow> string" where
  "toFixed2 x =
     (let m = show_nat (nat \<lfloor>\<bar>x\<bar> * 100 + 1 / 2\<rfloor>);
          m' = replicate (3 - length m) (CHR ''0'') @ m;
          k = length m'
      in (if x < 0 then ''-'' else []) @ take (k - 2) m' @ ''.'' @ drop (k - 2) m')"

subsection \<open>Values that should be strings\<close>

text \<open>
  A property of a decoded JSON record that the program expects to hold a string: it may
  be missing (\<open>Undefined\<close>), \<open>null\<close>, or a string. Only a non-empty string is truthy.
\<close>

datatype jsstr = Undefined | Null | Str string

fun truthy :: "jsstr \<Rightarrow> bool" where
  "truthy (Str s) = (s \<noteq> [])"
| "truthy v = False"

text \<open>\<^verbatim>\<open>x || y\<close>\<close>

definition js_or :: "jsstr \<Rightarrow> jsstr \<Rightarrow> jsstr" where
  "js_or x y = (if truthy x then x else y)"

text \<open>\<^verbatim>\<open>x || "literal"\<close>: the result is a string in every case.\<close>

definition or_string :: "jsstr \<Rightarrow> string \<Rightarrow> string" where
  "or_string x d = (case x of Str s \<Rightarrow> (if s = [] then d else s) | _ \<Rightarrow> d)"

text \<open>Interpolation in a template literal.\<close>

fun to_String :: "jsstr \<Rightarrow> string" where
  "to_String Undefined = ''undefined''"
| "to_String Null = ''null''"
| "to_String (Str s) = s"

text \<open>
  \<^verbatim>\<open>toLowerCase\<close> on code units below 256: the letters A to Z and the capital letters
  of Latin-1 (192 to 222, without the multiplication sign 215) move up by 32.
\<close>

definition toLowerChar :: "char \<Rightarrow> char" where
  "toLowerChar c =
     (let n = (of_char c :: nat) in
      if (65 \<le> n \<and> n \<le> 90) \<or> (192 \<le> n \<and> n \<le> 222 \<and> n \<noteq> 215)
      then (case c of Char b0 b1 b2 b3 b4 b5 b6 b7 \<Rightarrow> Char b0 b1 b2 b3 b4 True b6 b7)
      else c)"

definition toLowerCase :: "string \<Rightarrow> string" where
  "toLowerCase s = map toLowerChar s"

text \<open>
  \<^verbatim>\<open>trim\<close>: white space and line terminators below 256 are tab, line feed, vertical
  tab, form feed, carriage return, space and the no-break space.
\<close>

definition is_space :: "char \<Rightarrow> bool" where
  "is_space c = ((of_char c :: nat) \<in> {9, 10, 11, 12, 13, 32, 160})"

definition trim :: "string \<Rightarrow> string" where
  "trim s = rev (dropWhile is_space (rev (dropWhile is_space s)))"

text \<open>\<^verbatim>\<open>s.split(",")\<close>: the empty string gives one empty piece.\<close>

fun split_comma :: "string \<Rightarrow> string list" where
  "split_comma [] = [[]]"
| "split_comma (c # s) =
     (if c = CHR '','' then [] # split_comma s
      else (case split_comma s of [] \<Rightarrow> [[c]] | w # ws \<Rightarrow> (c # w) # ws))"

subsection \<open>Dates\<close>

text \<open>
  A \<^verbatim>\<open>Date\<close> holds a time value: whole milliseconds since the epoch, at most
  \<open>8.64 * 10\<^sup>1\<^sup>5\<close> in magnitude, or \<open>NaN\<close> for an invalid date (\<open>None\<close>).
  \<^verbatim>\<open>new Date(v)\<close> clips the number it is given to that range.
\<close>

type_synonym date = "int option"

definition TimeClip :: "int option \<Rightarrow> date" where
  "TimeClip v =
     (case v of None \<Rightarrow> None
      | Some t \<Rightarrow> (if \<bar>t\<bar> > 8640000000000000 then None else Some t))"

definition getTime :: "date \<Rightarrow> int option" where
  "getTime d = d"

text \<open>
  The calendar date of a day number (days since 1 January 1970) in the proleptic
  Gregorian calendar, which is what the UTC getters of a date compute from its time
  value: year, month (1 to 12) and day of the month.
\<close>

definition civil_from_days :: "int \<Rightarrow> int \<times> int \<times> int" where
  "civil_from_days z0 =
    (let z = z0 + 719468;
         era = z div 146097;
         doe = z mod 146097;
         yoe = (doe - doe div 1460 + doe div 36524 - doe div 146096) div 365;
         doy = doe - (365 * yoe + yoe div 4 - yoe div 100);
         mp = (5 * doy + 2) div 153;
         d = doy - (153 * mp + 2) div 5 + 1;
         m = (if mp < 10 then mp + 3 else mp - 9);
         y = yoe + era * 400 + (if m \<le> 2 then 1 else 0)
     in (y, m, d))"

definition getUTCFullYear :: "date \<Rightarrow> int option" where
  "getUTCFullYear d = map_option (\<lambda>t. fst (civil_from_days (t div 86400000))) d"

definition getUTCMonth :: "date \<Rightarrow> int option" where
  "getUTCMonth d = map_option (\<lambda>t. fst (snd (civil_from_days (t div 86400000))) - 1) d"

definition getUTCDate :: "date \<Rightarrow> int option" where
  "getUTCDate d = map_option (\<lambda>t. snd (snd (civil_from_days (t div 86400000)))) d"

definition getUTCHours :: "date \<Rightarrow> int option" where
  "getUTCHours d = map_option (\<lambda>t. (t mod 86400000) div 3600000) d"

definition getUTCMinutes :: "date \<Rightarrow> int option" where
  "getUTCMinutes d = map_option (\<lambda>t. (t mod 3600000) div 60000) d"

definition getUTCSeconds :: "date \<Rightarrow> int option" where
  "getUTCSeconds d = map_option (\<lambda>t. (t mod 60000) div 1000) d"

text \<open>\<^verbatim>\<open>formatAsUTC\<close> (lines 99-112), with its local \<^verbatim>\<open>pad\<close>.\<close>

definition pad :: "int option \<Rightarrow> string" where
  "pad n = padStart2 (show_num n)"

definition formatAsUTC :: "date \<Rightarrow> string" where
  "formatAsUTC dt =
     show_num (getUTCFullYear dt) @
     pad (map_option (\<lambda>m. m + 1) (getUTCMonth dt)) @
     pad (getUTCDate dt) @
     ''T'' @
     pad (getUTCHours dt) @
     pad (getUTCMinutes dt) @
     pad (getUTCSeconds dt) @
     ''Z''"

subsection \<open>Activities and their events\<close>

text \<open>
  The fields of \<^verbatim>\<open>StravaActivity\<close> (lines 52-73) that the program reads. The
  identifier and the two durations are whole numbers, as Strava delivers them; distance
  and elevation gain are reals. The fields holding text may be missing or \<open>null\<close>: the
  program guards each of them with \<^verbatim>\<open>||\<close>.
\<close>

record activity =
  activity_id :: int
  name :: jsstr
  activity_type :: jsstr
  sport_type :: jsstr
  start_date :: string
  elapsed_time :: int
  moving_time :: int
  distance :: real
  total_elevation_gain :: real
  location_city :: jsstr
  location_state :: jsstr
  location_country :: jsstr

text \<open>A thrown exception: the name of its class and its message.\<close>

datatype error = Error (error_name: string) (message: string)

text \<open>
  What \<^verbatim>\<open>fetch\<close> followed by \<^verbatim>\<open>res.json()\<close> can give: the request itself fails, or a
  response arrives with its \<^verbatim>\<open>ok\<close> flag, status, status text, body text and the
  outcome of decoding the body as JSON.
\<close>

datatype 'a fetched =
    Rejected error
  | Response (ok: bool) (status: nat) (statusText: string) (body: string) (json: "error + 'a")

text \<open>
  What the program takes from its surroundings, besides the request: the three
  environment variables, the clock, the runtime's \<^verbatim>\<open>Date.parse\<close> (which strings it
  accepts beyond the ISO format depends on the engine), and the two endpoints of Strava
  (the token endpoint sees the three credentials; the activity endpoint sees the bearer
  token, the effective \<^verbatim>\<open>sinceDays\<close> from which the cutoff in the query string is computed,
  and the page number; the page size is the constant 200).
  The clock is read several times while one request is served; the model takes one reading
  for all of them.
\<close>

record env =
  STRAVA_CLIENT_ID :: "string option"
  STRAVA_CLIENT_SECRET :: "string option"
  STRAVA_REFRESH_TOKEN :: "string option"
  clock :: int
  Date_parse :: "string \<Rightarrow> int option"
  token_endpoint :: "string \<Rightarrow> string \<Rightarrow> string \<Rightarrow> string fetched"
  activities_endpoint :: "string \<Rightarrow> jsnum \<Rightarrow> nat \<Rightarrow> activity list fetched"

text \<open>
  \<^verbatim>\<open>toTitleCase\<close> (lines 75-77) is never called and is left out. In \<^verbatim>\<open>metersToKm\<close> the
  quotient is the exact one; a double rounds it to 53 bits before \<^verbatim>\<open>toFixed\<close> sees it,
  which matters only next to a rounding boundary of the second decimal.
\<close>

definition metersToKm :: "real \<Rightarrow> string" where
  "metersToKm m = toFixed2 (m / 1000)"

definition secondsToHMS :: "int \<Rightarrow> string" where
  "secondsToHMS s =
     (let h = s div 3600;
          m = js_rem s 3600 div 60;
          sec = js_rem s 60
      in join '':'' (map (\<lambda>v. padStart2 (show_int v)) [h, m, sec]))"

text \<open>\<^verbatim>\<open>buildEvent\<close> (lines 114-154), one definition for each of its locals.\<close>

definition event_start :: "env \<Rightarrow> activity \<Rightarrow> date" where
  "event_start e a = TimeClip (Date_parse e (start_date a))"

definition event_end :: "env \<Rightarrow> activity \<Rightarrow> date" where
  "event_end e a =
     TimeClip (map_option (\<lambda>t. t + elapsed_time a * 1000) (getTime (event_start e a)))"

definition event_summary :: "activity \<Rightarrow> string" where
  "event_summary a = ''Strava: '' @ to_String (js_or (name a) (sport_type a))"

definition event_url :: "activity \<Rightarrow> string" where
  "event_url a = ''https://www.strava.com/activities/'' @ show_int (activity_id a)"

definition descParts :: "activity \<Rightarrow> string list" where
  "descParts a =
     [''Sport: '' @ to_String (js_or (sport_type a) (activity_type a)),
      ''Distance: '' @ metersToKm (distance a) @ '' km'',
      ''Moving: '' @ secondsToHMS (moving_time a),
      ''Elapsed: '' @ secondsToHMS (elapsed_time a)]
     @ (if total_elevation_gain a \<noteq> 0
        then [''Elevation: '' @ show_int (Math_round (total_elevation_gain a)) @ '' m'']
        else [])
     @ [event_url a]"

definition event_description :: "activity \<Rightarrow> string" where
  "event_description a = icsEscape (join [LF] (descParts a))"

definition event_uid :: "activity \<Rightarrow> string" where
  "event_uid a = show_int (activity_id a) @ ''@strava-ics''"

definition event_location :: "activity \<Rightarrow> string" where
  "event_location a =
     (if truthy (location_city a) \<or> truthy (location_state a) \<or> truthy (location_country a)
      then icsEscape (join '', ''
             (map to_String
                (filter truthy [location_city a, location_state a, location_country a])))
      else [])"

definition event_lines :: "env \<Rightarrow> activity \<Rightarrow> string list" where
  "event_lines e a =
     filter (\<lambda>l. l \<noteq> [])
       [''BEGIN:VEVENT'',
        ''UID:'' @ event_uid a,
        ''DTSTAMP:'' @ formatAsUTC (Some (clock e)),
        ''DTSTART:'' @ formatAsUTC (event_start e a),
        ''DTEND:'' @ formatAsUTC (event_end e a),
        ''SUMMARY:'' @ icsEscape (event_summary a),
        (if event_location a \<noteq> [] then ''LOCATION:'' @ event_location a else []),
        ''DESCRIPTION:'' @ event_description a,
        ''URL:'' @ event_url a,
        ''END:VEVENT'']"

definition buildEvent :: "env \<Rightarrow> activity \<Rightarrow> string" where
  "buildEvent e a = join CRLF (event_lines e a)"

subsection \<open>Network calls\<close>

text \<open>
  \<^verbatim>\<open>jfetch\<close> (lines 18-25): a response that is not \<^verbatim>\<open>ok\<close> is thrown as an error made
  of status, status text and body; otherwise the decoded JSON is returned, or its
  decoding error thrown.
\<close>

definition jfetch :: "'a fetched \<Rightarrow> error + 'a" where
  "jfetch r =
     (case r of
        Rejected err \<Rightarrow> Inl err
      | Response _ _ _ _ _ \<Rightarrow>
          (if \<not> ok r
           then Inl (Error ''Error''
                  (show_nat (status r) @ '' '' @ statusText r @ '': '' @ body r))
           else json r))"

text \<open>The requests a run sends, in the order in which it sends them.\<close>

datatype request = TokenExchange | ActivitiesPage nat

text \<open>
  \<^verbatim>\<open>getAccessToken\<close> (lines 28-49). The payload of the token response is the
  \<^verbatim>\<open>access_token\<close> field of the decoded object. The result comes with the requests
  sent.
\<close>

definition falsy :: "string option \<Rightarrow> bool" where
  "falsy v = (case v of None \<Rightarrow> True | Some s \<Rightarrow> s = [])"

definition getAccessToken :: "env \<Rightarrow> (error + string) \<times> request list" where
  "getAccessToken e =
     (if falsy (STRAVA_CLIENT_ID e) \<or> falsy (STRAVA_CLIENT_SECRET e)
         \<or> falsy (STRAVA_REFRESH_TOKEN e)
      then (Inl (Error ''Error'' ''Missing STRAVA env vars''), [])
      else (jfetch (token_endpoint e
                      (nullish_or (STRAVA_CLIENT_ID e) [])
                      (nullish_or (STRAVA_CLIENT_SECRET e) [])
                      (nullish_or (STRAVA_REFRESH_TOKEN e) [])),
            [TokenExchange]))"

subsection \<open>The request\<close>

text \<open>
  A query parameter is absent, one string, or several strings. The two numeric
  parameters are held as the number that \<^verbatim>\<open>Number\<close> makes of what was supplied: \<open>NaN\<close>
  for a text that is not a numeric literal such as \<^verbatim>\<open>abc\<close>, \<open>5 / 2\<close> for \<^verbatim>\<open>2.5\<close>.
\<close>

datatype qvalue = Single string | Multiple "string list"

record query =
  q_sport :: "qvalue option"
  q_sinceDays :: "jsnum option"
  q_max :: "jsnum option"

definition sportsParam :: "query \<Rightarrow> string option" where
  "sportsParam q =
     (case q_sport q of
        None \<Rightarrow> None
      | Some (Single s) \<Rightarrow> Some s
      | Some (Multiple xs) \<Rightarrow> (case xs of [] \<Rightarrow> None | x # _ \<Rightarrow> Some x))"

definition allowedSports_of :: "query \<Rightarrow> string list option" where
  "allowedSports_of q =
     (if falsy (sportsParam q) then None
      else Some (map (\<lambda>s. toLowerCase (trim s)) (split_comma (nullish_or (sportsParam q) []))))"

definition sinceDays_of :: "query \<Rightarrow> jsnum" where
  "sinceDays_of q = Math_max (Fin 1) (Math_min (Fin 365) (nullish_or (q_sinceDays q) (Fin 90)))"

definition max_of :: "query \<Rightarrow> jsnum" where
  "max_of q = Math_max (Fin 1) (Math_min (Fin 600) (nullish_or (q_max q) (Fin 300)))"

subsection \<open>Paging through the activities\<close>

text \<open>The classification that the filter looks at (line 183).\<close>

definition sport_of :: "activity \<Rightarrow> string" where
  "sport_of a = toLowerCase (or_string (js_or (sport_type a) (activity_type a)) [])"

text \<open>The test of line 184: the activity is passed over.\<close>

definition skipped :: "string list option \<Rightarrow> activity \<Rightarrow> bool" where
  "skipped allowedSports a =
     (case allowedSports of None \<Rightarrow> False | Some l \<Rightarrow> sport_of a \<notin> set l)"

text \<open>
  The inner loop over one batch (lines 181-186): \<^verbatim>\<open>break\<close> once the cap is reached,
  \<^verbatim>\<open>continue\<close> on an activity that the filter rejects, otherwise \<^verbatim>\<open>push\<close>.
\<close>

fun push_batch ::
  "string list option \<Rightarrow> jsnum \<Rightarrow> activity list \<Rightarrow> activity list \<Rightarrow> activity list" where
  "push_batch allowedSports mx [] activities = activities"
| "push_batch allowedSports mx (a # batch) activities =
     (if js_ge (num_of_length (length activities)) mx then activities
      else if skipped allowedSports a then push_batch allowedSports mx batch activities
      else push_batch allowedSports mx batch (activities @ [a]))"

text \<open>
  The outer loop (lines 175-188), from a page number, the activities kept so far and the
  requests sent so far. An upstream that serves non-empty pages for ever, none of whose
  activities is kept, keeps the loop running: the result is then \<open>None\<close>.
\<close>

partial_function (option) fetch_pages ::
  "(nat \<Rightarrow> activity list fetched) \<Rightarrow> string list option \<Rightarrow> jsnum \<Rightarrow> nat \<Rightarrow> activity list
     \<Rightarrow> request list \<Rightarrow> ((error + activity list) \<times> request list) option" where
  "fetch_pages upstream allowedSports mx page activities sent =
     (if js_lt (num_of_length (length activities)) mx then
        (case jfetch (upstream page) of
           Inl err \<Rightarrow> Some (Inl err, sent @ [ActivitiesPage page])
         | Inr batch \<Rightarrow>
             (if batch = [] then Some (Inr activities, sent @ [ActivitiesPage page])
              else fetch_pages upstream allowedSports mx (page + 1)
                     (push_batch allowedSports mx batch activities)
                     (sent @ [ActivitiesPage page])))
      else Some (Inr activities, sent))"

declare fetch_pages.simps [code]

subsection \<open>The two documents and the handler\<close>

text \<open>The calendar of lines 191-208.\<close>

definition prodId :: string where
  "prodId = ''-//NexClass//Strava ICS//EN''"

definition calName :: string where
  "calName = ''Strava''"

definition ics_document :: "env \<Rightarrow> activity list \<Rightarrow> string" where
  "ics_document e activities =
     (let events = join CRLF (map (buildEvent e) activities)
      in join CRLF
           [''BEGIN:VCALENDAR'',
            ''VERSION:2.0'',
            ''PRODID:'' @ prodId,
            ''NAME:'' @ calName,
            ''X-WR-CALNAME:'' @ calName,
            ''CALSCALE:GREGORIAN'',
            ''METHOD:PUBLISH'',
            ''X-WR-TIMEZONE:UTC'',
            events,
            ''END:VCALENDAR''])"

text \<open>
  The calendar of the \<^verbatim>\<open>catch\<close> branch (line 214). \<^verbatim>\<open>String(err)\<close> of an error is its
  name, its message, or both with a colon between them.
\<close>

definition error_toString :: "error \<Rightarrow> string" where
  "error_toString err =
     (if error_name err = [] then message err
      else if message err = [] then error_name err
      else error_name err @ '': '' @ message err)"

definition error_text :: "error \<Rightarrow> string" where
  "error_text err = (if message err \<noteq> [] then message err else error_toString err)"

definition error_document :: "env \<Rightarrow> error \<Rightarrow> string" where
  "error_document e err =
     ''BEGIN:VCALENDAR'' @ CRLF @
     ''PRODID:-//Strava ICS Error//EN'' @ CRLF @
     ''VERSION:2.0'' @ CRLF @
     ''BEGIN:VEVENT'' @ CRLF @
     ''SUMMARY:Strava ICS Error'' @ CRLF @
     ''DESCRIPTION:'' @ icsEscape (error_text err) @ CRLF @
     ''DTSTART:'' @ formatAsUTC (Some (clock e)) @ CRLF @
     ''DTEND:'' @ formatAsUTC (TimeClip (Some (clock e + 600000))) @ CRLF @
     ''END:VEVENT'' @ CRLF @
     ''END:VCALENDAR''"

text \<open>What the handler sends: status code, the headers it sets itself, and the body.\<close>

record reply =
  code :: nat
  headers :: "(string \<times> string) list"
  content :: string

definition success :: "env \<Rightarrow> activity list \<Rightarrow> reply" where
  "success e activities =
     \<lparr>code = 200,
      headers = [(''Content-Type'', ''text/calendar; charset=utf-8''),
                 (''Cache-Control'', ''s-maxage=300, stale-while-revalidate=60'')],
      content = ics_document e activities\<rparr>"

definition failure :: "env \<Rightarrow> error \<Rightarrow> reply" where
  "failure e err = \<lparr>code = 500, headers = [], content = error_document e err\<rparr>"

text \<open>
  \<^verbatim>\<open>handler\<close> (lines 156-216): the reply and the requests sent, or \<open>None\<close> when the
  paging loop does not end.
\<close>

definition handler :: "env \<Rightarrow> query \<Rightarrow> (reply \<times> request list) option" where
  "handler e q =
     (case getAccessToken e of
        (Inl err, sent) \<Rightarrow> Some (failure e err, sent)
      | (Inr accessToken, sent) \<Rightarrow>
          (case fetch_pages (activities_endpoint e accessToken (sinceDays_of q))
                  (allowedSports_of q) (max_of q) 1 [] sent of
             None \<Rightarrow> None
           | Some (Inl err, sent') \<Rightarrow> Some (failure e err, sent')
           | Some (Inr activities, sent') \<Rightarrow> Some (success e activities, sent')))"

subsection \<open>Notions used in the statements\<close>

text \<open>
  The definitions from here on are not part of the program; the statements about it are
  written with them.

  An activity passes the filter: no allow-list was supplied, or its lower-cased
  classification is one of the entries of the allow-list.
\<close>

definition kept :: "string list option \<Rightarrow> activity \<Rightarrow> bool" where
  "kept allowedSports a =
     (case allowedSports of None \<Rightarrow> True | Some l \<Rightarrow> sport_of a \<in> set l)"

text \<open>
  The upstream answers the pages \<open>p\<close>, \<open>p + 1\<close>, ... with the batches \<open>bs\<close>, each a
  successful response with at least one record.
\<close>

fun served :: "(nat \<Rightarrow> activity list fetched) \<Rightarrow> nat \<Rightarrow> activity list list \<Rightarrow> bool" where
  "served upstream p [] = True"
| "served upstream p (b # bs) =
     (jfetch (upstream p) = Inr b \<and> b \<noteq> [] \<and> served upstream (Suc p) bs)"

text \<open>A number is finite and lies in a range; it is moreover whole.\<close>

definition number_between :: "real \<Rightarrow> real \<Rightarrow> jsnum \<Rightarrow> bool" where
  "number_between lo hi v = (case v of Fin r \<Rightarrow> lo \<le> r \<and> r \<le> hi | _ \<Rightarrow> False)"

definition integer_between :: "int \<Rightarrow> int \<Rightarrow> jsnum \<Rightarrow> bool" where
  "integer_between lo hi v =
     (case v of
        Fin r \<Rightarrow> of_int \<lfloor>r\<rfloor> = r \<and> of_int lo \<le> r \<and> r \<le> of_int hi
      | _ \<Rightarrow> False)"

subsection \<open>Reading a calendar document\<close>

text \<open>
  How a reader of the calendar format takes a document apart. The lines of a text are
  what lies between its CRLF pairs.
\<close>

fun lines_of :: "string \<Rightarrow> string list" where
  "lines_of (c # d # s) =
     (if c = CR \<and> d = LF then [] # lines_of s
      else (case lines_of (d # s) of [] \<Rightarrow> [[c]] | l # ls \<Rightarrow> (c # l) # ls))"
| "lines_of [c] = [[c]]"
| "lines_of [] = [[]]"

text \<open>
  A property line is a name, a colon and a value; the name is not empty and is neither
  \<^verbatim>\<open>BEGIN\<close> nor \<^verbatim>\<open>END\<close>.
\<close>

definition property_line :: "string \<Rightarrow> bool" where
  "property_line l =
     (let n = takeWhile (\<lambda>c. c \<noteq> CHR '':'') l
      in n \<noteq> [] \<and> n \<noteq> l \<and> n \<noteq> ''BEGIN'' \<and> n \<noteq> ''END'')"

text \<open>
  A calendar is read as its own properties and its events, each event being the list
  of its property lines. The document must open with \<^verbatim>\<open>BEGIN:VCALENDAR\<close> and end with
  \<^verbatim>\<open>END:VCALENDAR\<close>; an event lies between \<^verbatim>\<open>BEGIN:VEVENT\<close> and \<^verbatim>\<open>END:VEVENT\<close>; every
  other line must be a property line. Anything else, an empty line included, makes the
  document unreadable (\<open>None\<close>). This reader is lenient: it finds the blocks and their
  lines and checks nothing else.
\<close>

datatype calendar = Calendar (properties: "string list") (events: "string list list")

fun parse_lines :: "string list option \<Rightarrow> calendar \<Rightarrow> string list \<Rightarrow> calendar option" where
  "parse_lines cur cal [] = None"
| "parse_lines None cal (l # ls) =
     (if l = ''END:VCALENDAR'' then (if ls = [] then Some cal else None)
      else if l = ''BEGIN:VEVENT'' then parse_lines (Some []) cal ls
      else if property_line l
        then parse_lines None (Calendar (properties cal @ [l]) (events cal)) ls
      else None)"
| "parse_lines (Some ev) cal (l # ls) =
     (if l = ''END:VEVENT''
        then parse_lines None (Calendar (properties cal) (events cal @ [ev])) ls
      else if property_line l then parse_lines (Some (ev @ [l])) cal ls
      else None)"

definition parse_calendar :: "string \<Rightarrow> calendar option" where
  "parse_calendar doc =
     (case lines_of doc of
        [] \<Rightarrow> None
      | l # ls \<Rightarrow> (if l = ''BEGIN:VCALENDAR'' then parse_lines None (Calendar [] []) ls else None))"

text \<open>
  What RFC 5545 asks of a calendar document beyond the nesting of its blocks, as far as
  it is checked here: the name of a property is made of letters, digits and hyphens
  and is followed by parameters or a colon; a line holds no control character other than
  the tab (section 3.1); the calendar has \<^verbatim>\<open>PRODID\<close> and \<^verbatim>\<open>VERSION\<close> (3.6) and at least one
  component (3.4); every event has \<^verbatim>\<open>UID\<close> and \<^verbatim>\<open>DTSTAMP\<close> (3.6.1). These conditions are
  necessary ones: a document that fails them is not a valid calendar document.
\<close>

definition name_char :: "char \<Rightarrow> bool" where
  "name_char c =
     (let n = (of_char c :: nat)
      in (48 \<le> n \<and> n \<le> 57) \<or> (65 \<le> n \<and> n \<le> 90) \<or> (97 \<le> n \<and> n \<le> 122) \<or> n = 45)"

definition control_char :: "char \<Rightarrow> bool" where
  "control_char c = (let n = (of_char c :: nat) in (n < 32 \<and> n \<noteq> 9) \<or> n = 127)"

definition line_name :: "string \<Rightarrow> string" where
  "line_name l = takeWhile (\<lambda>c. c \<noteq> CHR '':'' \<and> c \<noteq> CHR '';'') l"

definition conforming_line :: "string \<Rightarrow> bool" where
  "conforming_line l =
     (line_name l \<noteq> [] \<and> list_all name_char (line_name l) \<and> CHR '':'' \<in> set l
      \<and> \<not> list_ex control_char l)"

definition has_property :: "string \<Rightarrow> string list \<Rightarrow> bool" where
  "has_property n ls = list_ex (\<lambda>l. line_name l = n) ls"

definition rfc5545_conforming :: "string \<Rightarrow> bool" where
  "rfc5545_conforming doc =
     (case parse_calendar doc of
        None \<Rightarrow> False
      | Some cal \<Rightarrow>
          list_all conforming_line (properties cal)
          \<and> has_property ''PRODID'' (properties cal)
          \<and> has_property ''VERSION'' (properties cal)
          \<and> events cal \<noteq> []
          \<and> list_all (\<lambda>ev. list_all conforming_line ev \<and> has_property ''UID'' ev
                          \<and> has_property ''DTSTAMP'' ev) (events cal))"

text \<open>A text without line feed.\<close>

definition single_line :: "string \<Rightarrow> bool" where
  "single_line s = (LF \<notin> set s)"

text \<open>The header lines of the feed, and the property lines of one event of the feed.\<close>

definition envelope_open :: "string list" where
  "envelope_open =
     [''BEGIN:VCALENDAR'', ''VERSION:2.0'', ''PRODID:-//NexClass//Strava ICS//EN'',
      ''NAME:Strava'', ''X-WR-CALNAME:Strava'', ''CALSCALE:GREGORIAN'', ''METHOD:PUBLISH'',
      ''X-WR-TIMEZONE:UTC'']"

definition event_properties :: "env \<Rightarrow> activity \<Rightarrow> string list" where
  "event_properties e a =
     [''UID:'' @ event_uid a,
      ''DTSTAMP:'' @ formatAsUTC (Some (clock e)),
      ''DTSTART:'' @ formatAsUTC (event_start e a),
      ''DTEND:'' @ formatAsUTC (event_end e a),
      ''SUMMARY:'' @ icsEscape (event_summary a)]
     @ (if event_location a \<noteq> [] then [''LOCATION:'' @ event_location a] else [])
     @ [''DESCRIPTION:'' @ event_description a,
        ''URL:'' @ event_url a]"

subsection \<open>Example data\<close>

definition example_run :: activity where
  "example_run =
     \<lparr>activity_id = 42, name = Str ''Morning Run'', activity_type = Str ''Run'',
      sport_type = Str ''Run'', start_date = ''2024-01-01T08:00:00Z'',
      elapsed_time = 1830, moving_time = 1800, distance = 5000,
      total_elevation_gain = 30, location_city = Str ''Vienna'',
      location_state = Null, location_country = Undefined\<rparr>"

definition example_ride :: activity where
  "example_ride =
     \<lparr>activity_id = 43, name = Str [], activity_type = Str ''Ride'',
      sport_type = Undefined, start_date = ''2024-01-01T08:00:00Z'',
      elapsed_time = 200000, moving_time = 7200, distance = 40250,
      total_elevation_gain = 0, location_city = Undefined,
      location_state = Undefined, location_country = Undefined\<rparr>"

definition example_unclassified :: activity where
  "example_unclassified = example_ride\<lparr>activity_id := 44, activity_type := Undefined\<rparr>"

text \<open>Two pages of activities, then nothing more.\<close>

definition example_upstream :: "nat \<Rightarrow> activity list fetched" where
  "example_upstream page =
     Response True 200 ''OK'' []
       (Inr (if page = 1 then [example_ride, example_run]
             else if page = 2 then [example_run, example_ride, example_run]
             else []))"

definition example_env :: env where
  "example_env =
     \<lparr>STRAVA_CLIENT_ID = Some ''12345'', STRAVA_CLIENT_SECRET = Some ''secret'',
      STRAVA_REFRESH_TOKEN = Some ''refresh'',
      clock = 1704100000000,
      Date_parse = (\<lambda>s. if s = ''2024-01-01T08:00:00Z'' then Some 1704096000000 else None),
      token_endpoint = (\<lambda>client_id client_secret refresh_token.
         Response True 200 ''OK'' [] (Inr ''token'')),
      activities_endpoint = (\<lambda>token since. example_upstream)\<rparr>"

definition example_query :: query where
  "example_query = \<lparr>q_sport = None, q_sinceDays = None, q_max = None\<rparr>"

text \<open>
  An account without activities, and an upstream whose second page is answered by a
  gateway with an error page of two lines.
\<close>

definition empty_account_env :: env where
  "empty_account_env =
     example_env\<lparr>activities_endpoint :=
       (\<lambda>token since page. Response True 200 ''OK'' [] (Inr []))\<rparr>"

definition bad_gateway_upstream :: "nat \<Rightarrow> activity list fetched" where
  "bad_gateway_upstream page =
     (if page = 1 then Response True 200 ''OK'' [] (Inr [example_ride, example_run])
      else Response False 502 ''Bad Gateway'' (''upstream down'' @ CRLF @ ''retry later'')
             (Inr []))"

definition bad_gateway_env :: env where
  "bad_gateway_env =
     example_env\<lparr>activities_endpoint := (\<lambda>token since. bad_gateway_upstream)\<rparr>"

definition bad_gateway_error :: error where
  "bad_gateway_error =
     Error ''Error'' (''502 Bad Gateway: upstream down'' @ CRLF @ ''retry later'')"


section \<open>Properties\<close>

subsection \<open>Escaping\<close>

lemma replaceAll_Nil: "replaceAll p r [] = []"
  by (simp add: replaceAll_def)

lemma replaceAll_Cons:
  "replaceAll p r (c # s) = (if c = p then r else [c]) @ replaceAll p r s"
  by (simp add: replaceAll_def)

lemma replaceAll_append:
  "replaceAll p r (s @ t) = replaceAll p r s @ replaceAll p r t"
  by (simp add: replaceAll_def)

lemma icsEscape_Nil: "icsEscape [] = []"
  by (simp add: icsEscape_def replaceAll_Nil)

lemma icsEscape_Cons: "icsEscape (c # s) = icsEscape [c] @ icsEscape s"
  by (simp add: icsEscape_def replaceAll_Cons replaceAll_append replaceAll_Nil)

lemma unescape_one:
  "standard_unescape (icsEscape [c] @ t) = c # standard_unescape t"
  by (cases t) (auto simp: icsEscape_def replaceAll_Cons replaceAll_Nil BSL_def LF_def)

text \<open>
  C5. Escaping a text and then unescaping it as the calendar format prescribes gives the
  text back, for every text: backslashes, line feeds, commas and semicolons included.
\<close>

theorem icsEscape_roundtrip: "standard_unescape (icsEscape s) = s"
proof (induction s)
  case Nil
  show ?case by (simp add: icsEscape_Nil)
next
  case (Cons c s)
  have "standard_unescape (icsEscape (c # s)) = c # standard_unescape (icsEscape s)"
    by (subst icsEscape_Cons) (rule unescape_one)
  with Cons show ?case by simp
qed


subsection \<open>The paging loop\<close>

lemma skipped_kept: "skipped al a = (\<not> kept al a)"
  by (simp add: skipped_def kept_def split: option.splits)

lemma js_lt_Fin: "js_lt (num_of_length n) (Fin r) = (n < nat \<lceil>r\<rceil>)"
  by (simp add: num_of_length_def) linarith

lemma js_ge_Fin: "js_ge (num_of_length n) (Fin r) = (nat \<lceil>r\<rceil> \<le> n)"
  by (simp add: num_of_length_def) linarith

text \<open>
  One batch: the kept activities are appended in their order until the cap \<open>N\<close> is
  reached. The lemmas take the cap through the two comparisons of the loops.
\<close>

lemma push_batch_cap:
  assumes ge: "\<And>n. js_ge (num_of_length n) mx = (N \<le> n)"
  shows "push_batch al mx batch acts =
           acts @ take (N - length acts) (filter (kept al) batch)"
proof (induction batch arbitrary: acts)
  case Nil
  show ?case by simp
next
  case (Cons a batch)
  show ?case
  proof (cases "N \<le> length acts")
    case True
    then show ?thesis by (simp add: ge)
  next
    case False
    then have "N - length acts = Suc (N - Suc (length acts))" by simp
    with False Cons show ?thesis
      by (simp add: ge skipped_kept)
  qed
qed

lemma pages_shift:
  "(sent @ [ActivitiesPage p]) @ map ActivitiesPage [Suc p ..< Suc p + j] =
     sent @ map ActivitiesPage [p ..< p + Suc j]"
  by (simp add: upt_conv_Cons)

lemma fetch_pages_full:
  "\<not> js_lt (num_of_length (length acts)) mx \<Longrightarrow>
     fetch_pages upstream al mx p acts sent = Some (Inr acts, sent)"
  by (subst fetch_pages.simps) simp

lemma fetch_pages_error:
  "js_lt (num_of_length (length acts)) mx \<Longrightarrow> jfetch (upstream p) = Inl err \<Longrightarrow>
     fetch_pages upstream al mx p acts sent = Some (Inl err, sent @ [ActivitiesPage p])"
  by (subst fetch_pages.simps) simp

lemma fetch_pages_empty:
  "js_lt (num_of_length (length acts)) mx \<Longrightarrow> jfetch (upstream p) = Inr [] \<Longrightarrow>
     fetch_pages upstream al mx p acts sent = Some (Inr acts, sent @ [ActivitiesPage p])"
  by (subst fetch_pages.simps) simp

lemma fetch_pages_next:
  "js_lt (num_of_length (length acts)) mx \<Longrightarrow> jfetch (upstream p) = Inr batch \<Longrightarrow>
   batch \<noteq> [] \<Longrightarrow>
     fetch_pages upstream al mx p acts sent =
       fetch_pages upstream al mx (Suc p) (push_batch al mx batch acts)
         (sent @ [ActivitiesPage p])"
  by (subst fetch_pages.simps) simp

lemma fetch_pages_served:
  assumes lt: "\<And>n. js_lt (num_of_length n) mx = (n < N)"
      and ge: "\<And>n. js_ge (num_of_length n) mx = (N \<le> n)"
      and "served upstream p bs"
      and "jfetch (upstream (p + length bs)) = Inr []
           \<or> N \<le> length acts + length (filter (kept al) (concat bs))"
  shows "\<exists>j \<le> Suc (length bs).
           fetch_pages upstream al mx p acts sent =
             Some (Inr (acts @ take (N - length acts) (filter (kept al) (concat bs))),
                   sent @ map ActivitiesPage [p ..< p + j])"
  using assms(3,4)
proof (induction bs arbitrary: p acts sent)
  case Nil
  show ?case
  proof (cases "length acts < N")
    case True
    with Nil have "jfetch (upstream p) = Inr []" by simp
    with True have "fetch_pages upstream al mx p acts sent =
        Some (Inr acts, sent @ [ActivitiesPage p])"
      by (simp add: fetch_pages_empty lt)
    then show ?thesis by (intro exI[of _ 1]) simp
  next
    case False
    then have "fetch_pages upstream al mx p acts sent = Some (Inr acts, sent)"
      by (simp add: fetch_pages_full lt)
    then show ?thesis by (intro exI[of _ 0]) simp
  qed
next
  case (Cons b bs)
  show ?case
  proof (cases "length acts < N")
    case False
    then have "fetch_pages upstream al mx p acts sent = Some (Inr acts, sent)"
      by (simp add: fetch_pages_full lt)
    with False show ?thesis by (intro exI[of _ 0]) simp
  next
    case True
    from Cons.prems(1) have b: "jfetch (upstream p) = Inr b" "b \<noteq> []"
      and sv: "served upstream (Suc p) bs"
      by simp_all
    let ?acts' = "push_batch al mx b acts"
    have acts': "?acts' = acts @ take (N - length acts) (filter (kept al) b)"
      by (rule push_batch_cap[OF ge])
    have stop: "jfetch (upstream (Suc p + length bs)) = Inr []
           \<or> N \<le> length ?acts' + length (filter (kept al) (concat bs))"
      using Cons.prems(2) by (auto simp: acts')
    from Cons.IH[where p = "Suc p" and acts = ?acts' and sent = "sent @ [ActivitiesPage p]",
        OF sv stop]
    obtain j where j: "j \<le> Suc (length bs)"
      and eq: "fetch_pages upstream al mx (Suc p) ?acts' (sent @ [ActivitiesPage p]) =
         Some (Inr (?acts' @ take (N - length ?acts') (filter (kept al) (concat bs))),
               (sent @ [ActivitiesPage p]) @ map ActivitiesPage [Suc p ..< Suc p + j])"
      by blast
    have unfold: "fetch_pages upstream al mx p acts sent =
        fetch_pages upstream al mx (Suc p) ?acts' (sent @ [ActivitiesPage p])"
      using True b by (simp add: fetch_pages_next lt)
    have res: "?acts' @ take (N - length ?acts') (filter (kept al) (concat bs)) =
        acts @ take (N - length acts) (filter (kept al) (concat (b # bs)))"
      by (simp add: acts' min_def)
    show ?thesis
      using j unfolding unfold eq res pages_shift by (intro exI[of _ "Suc j"]) simp
  qed
qed

lemma js_lt_mono:
  "js_lt (num_of_length m) mx \<Longrightarrow> n \<le> m \<Longrightarrow> js_lt (num_of_length n) mx"
  by (cases mx) (auto simp: num_of_length_def)

lemma js_lt_not_ge:
  "js_lt (num_of_length m) mx \<Longrightarrow> n \<le> m \<Longrightarrow> \<not> js_ge (num_of_length n) mx"
  by (cases mx) (auto simp: num_of_length_def)

lemma push_batch_room:
  "js_lt (num_of_length (length acts + length (filter (kept al) batch))) mx \<Longrightarrow>
     push_batch al mx batch acts = acts @ filter (kept al) batch"
proof (induction batch arbitrary: acts)
  case Nil
  show ?case by simp
next
  case (Cons a batch)
  from Cons.prems have room: "\<not> js_ge (num_of_length (length acts)) mx"
    by (rule js_lt_not_ge) simp
  show ?case
  proof (cases "kept al a")
    case True
    with Cons.prems have "js_lt (num_of_length (length (acts @ [a])
        + length (filter (kept al) batch))) mx" by simp
    from Cons.IH[OF this] True room show ?thesis by (simp add: skipped_kept)
  next
    case False
    with Cons.prems have "js_lt (num_of_length (length acts
        + length (filter (kept al) batch))) mx" by simp
    from Cons.IH[OF this] False room show ?thesis by (simp add: skipped_kept)
  qed
qed

lemma fetch_pages_exhausts:
  assumes "served upstream p bs"
      and "jfetch (upstream (p + length bs)) = Inr []"
      and "js_lt (num_of_length (length acts + length (filter (kept al) (concat bs)))) mx"
  shows "fetch_pages upstream al mx p acts sent =
           Some (Inr (acts @ filter (kept al) (concat bs)),
                 sent @ map ActivitiesPage [p ..< p + Suc (length bs)])"
  using assms
proof (induction bs arbitrary: p acts sent)
  case Nil
  then show ?case by (simp add: fetch_pages_empty)
next
  case (Cons b bs)
  from Cons.prems(1) have b: "jfetch (upstream p) = Inr b" "b \<noteq> []"
    and sv: "served upstream (Suc p) bs"
    by simp_all
  from Cons.prems(3) have room: "js_lt (num_of_length (length acts)) mx"
    by (rule js_lt_mono) simp
  from Cons.prems(3) have "js_lt (num_of_length (length acts
      + length (filter (kept al) b))) mx"
    by (rule js_lt_mono) simp
  then have push: "push_batch al mx b acts = acts @ filter (kept al) b"
    by (rule push_batch_room)
  have last: "jfetch (upstream (Suc p + length bs)) = Inr []"
    using Cons.prems(2) by simp
  have below: "js_lt (num_of_length (length (acts @ filter (kept al) b)
      + length (filter (kept al) (concat bs)))) mx"
    using Cons.prems(3) by (simp add: add.assoc)
  have "fetch_pages upstream al mx p acts sent =
      fetch_pages upstream al mx (Suc p) (acts @ filter (kept al) b)
        (sent @ [ActivitiesPage p])"
    using room b by (simp add: fetch_pages_next push)
  also have "\<dots> = Some (Inr ((acts @ filter (kept al) b) @ filter (kept al) (concat bs)),
      (sent @ [ActivitiesPage p]) @ map ActivitiesPage [Suc p ..< Suc p + Suc (length bs)])"
    using sv last below by (rule Cons.IH)
  finally show ?case unfolding pages_shift by simp
qed


lemma fetch_pages_ends:
  assumes "jfetch (upstream k) = Inr []" and "p \<le> k"
  shows "\<exists>res j. fetch_pages upstream al mx p acts sent =
            Some (res, sent @ map ActivitiesPage [p ..< p + j]) \<and> p + j \<le> Suc k
          \<and> (js_lt (num_of_length (length acts)) mx \<longrightarrow> 1 \<le> j)"
  using assms(2)
proof (induction "k - p" arbitrary: p acts sent)
  case 0
  then have pk: "p = k" by simp
  show ?case
  proof (cases "js_lt (num_of_length (length acts)) mx")
    case True
    with assms(1) pk have "fetch_pages upstream al mx p acts sent =
        Some (Inr acts, sent @ [ActivitiesPage p])"
      by (simp add: fetch_pages_empty)
    then show ?thesis using pk by (intro exI[of _ "Inr acts"] exI[of _ 1]) simp
  next
    case False
    then have "fetch_pages upstream al mx p acts sent = Some (Inr acts, sent)"
      by (rule fetch_pages_full)
    then show ?thesis using pk False by (intro exI[of _ "Inr acts"] exI[of _ 0]) simp
  qed
next
  case (Suc d)
  then have below: "p < k" by simp
  show ?case
  proof (cases "js_lt (num_of_length (length acts)) mx")
    case False
    then have "fetch_pages upstream al mx p acts sent = Some (Inr acts, sent)"
      by (rule fetch_pages_full)
    then show ?thesis using below False
      by (intro exI[of _ "Inr acts"] exI[of _ 0]) simp
  next
    case room: True
    show ?thesis
    proof (cases "jfetch (upstream p)")
      case (Inl err)
      with room have "fetch_pages upstream al mx p acts sent =
          Some (Inl err, sent @ [ActivitiesPage p])"
        by (simp add: fetch_pages_error)
      then show ?thesis using below by (intro exI[of _ "Inl err"] exI[of _ 1]) simp
    next
      case (Inr batch)
      show ?thesis
      proof (cases "batch = []")
        case True
        with room Inr have "fetch_pages upstream al mx p acts sent =
            Some (Inr acts, sent @ [ActivitiesPage p])"
          by (simp add: fetch_pages_empty)
        then show ?thesis using below by (intro exI[of _ "Inr acts"] exI[of _ 1]) simp
      next
        case False
        have d: "d = k - Suc p" using Suc(2) by simp
        have le: "Suc p \<le> k" using below by simp
        from Suc(1)[where p = "Suc p" and acts = "push_batch al mx batch acts"
            and sent = "sent @ [ActivitiesPage p]", OF d le]
        obtain res j where
          eq: "fetch_pages upstream al mx (Suc p) (push_batch al mx batch acts)
                 (sent @ [ActivitiesPage p])
               = Some (res, (sent @ [ActivitiesPage p])
                              @ map ActivitiesPage [Suc p ..< Suc p + j])"
          and j: "Suc p + j \<le> Suc k" by blast
        have unfold: "fetch_pages upstream al mx p acts sent =
            fetch_pages upstream al mx (Suc p) (push_batch al mx batch acts)
              (sent @ [ActivitiesPage p])"
          using room Inr False by (simp add: fetch_pages_next)
        show ?thesis using j unfolding unfold eq pages_shift
          by (intro exI[of _ res] exI[of _ "Suc j"]) simp
      qed
    qed
  qed
qed

lemma example_upstream_pages:
  "jfetch (example_upstream (Suc 0)) = Inr [example_ride, example_run]"
  "jfetch (example_upstream 2) = Inr [example_run, example_ride, example_run]"
  "jfetch (example_upstream 3) = Inr []"
  by (simp_all add: jfetch_def example_upstream_def)

lemma example_sports:
  "sport_of example_run = ''run''" "sport_of example_ride = ''ride''"
  by (simp_all add: sport_of_def example_run_def example_ride_def js_or_def or_string_def
        toLowerCase_def toLowerChar_def)

text \<open>
  C3. The loop asks for page 1 first and for the next page after each page. When the
  upstream answers page \<open>k\<close> with no records, the loop ends, whatever the cap: the
  pages requested are 1 to \<open>j\<close>, one after the other, \<open>j\<close> is at most \<open>k\<close>, and
  page 1 is among them unless the cap lets no activity in. When moreover the pages
  before \<open>k\<close> are served with records and the kept activities of all of them stay below
  the cap, the loop asks for every page from 1 to \<open>k\<close>, ends at the empty page \<open>k\<close>
  and returns all the kept activities.
\<close>

theorem pagination_ends_at_empty_page:
  assumes "jfetch (upstream k) = Inr []" and "1 \<le> k"
  shows "(\<exists>res j. fetch_pages upstream allowedSports mx 1 [] sent =
             Some (res, sent @ map ActivitiesPage [1 ..< Suc j]) \<and> j \<le> k
           \<and> (js_lt (num_of_length 0) mx \<longrightarrow> 1 \<le> j))
       \<and> (\<forall>bs. served upstream 1 bs \<and> Suc (length bs) = k
              \<and> js_lt (num_of_length (length (filter (kept allowedSports) (concat bs)))) mx
            \<longrightarrow> fetch_pages upstream allowedSports mx 1 [] sent =
                  Some (Inr (filter (kept allowedSports) (concat bs)),
                        sent @ map ActivitiesPage [1 ..< Suc k]))"
proof (intro conjI allI impI)
  from fetch_pages_ends[where upstream = upstream and k = k and p = 1
      and al = allowedSports and mx = mx and acts = "[]" and sent = sent] assms
  obtain res j where "fetch_pages upstream allowedSports mx 1 [] sent =
      Some (res, sent @ map ActivitiesPage [1 ..< 1 + j])" and "1 + j \<le> Suc k"
    and "js_lt (num_of_length 0) mx \<longrightarrow> 1 \<le> j"
    by auto
  then show "\<exists>res j. fetch_pages upstream allowedSports mx 1 [] sent =
      Some (res, sent @ map ActivitiesPage [1 ..< Suc j]) \<and> j \<le> k
      \<and> (js_lt (num_of_length 0) mx \<longrightarrow> 1 \<le> j)"
    by (intro exI[of _ res] exI[of _ j]) simp
next
  fix bs
  assume a: "served upstream 1 bs \<and> Suc (length bs) = k
      \<and> js_lt (num_of_length (length (filter (kept allowedSports) (concat bs)))) mx"
  then have sv: "served upstream 1 bs"
    and last: "jfetch (upstream (1 + length bs)) = Inr []"
    and below: "js_lt (num_of_length (length ([]::activity list)
        + length (filter (kept allowedSports) (concat bs)))) mx"
    using assms(1) by auto
  from fetch_pages_exhausts[where upstream = upstream and p = 1 and bs = bs
      and acts = "[]" and al = allowedSports and mx = mx and sent = sent, OF sv last below] a
  show "fetch_pages upstream allowedSports mx 1 [] sent =
      Some (Inr (filter (kept allowedSports) (concat bs)),
            sent @ map ActivitiesPage [1 ..< Suc k])"
    by auto
qed

theorem pagination_ends_at_empty_page_witness:
  "jfetch (example_upstream 3) = Inr [] \<and> (1::nat) \<le> 3
   \<and> served example_upstream 1
       [[example_ride, example_run], [example_run, example_ride, example_run]]
   \<and> fetch_pages example_upstream None (Fin 300) 1 [] [TokenExchange] =
       Some (Inr [example_ride, example_run, example_run, example_ride, example_run],
             [TokenExchange, ActivitiesPage 1, ActivitiesPage 2, ActivitiesPage 3])"
proof -
  let ?bs = "[[example_ride, example_run], [example_run, example_ride, example_run]]"
  have h: "jfetch (example_upstream 3) = Inr []" by (rule example_upstream_pages)
  have k: "(1::nat) \<le> 3" by simp
  have sv: "served example_upstream 1 ?bs"
    by (simp add: jfetch_def example_upstream_def)
  have pre: "served example_upstream 1 ?bs \<and> Suc (length ?bs) = 3
      \<and> js_lt (num_of_length (length (filter (kept None) (concat ?bs)))) (Fin 300)"
    using sv by (simp add: kept_def num_of_length_def)
  have acts: "filter (kept None) (concat ?bs) =
      [example_ride, example_run, example_run, example_ride, example_run]"
    by (simp add: kept_def)
  have pages: "[TokenExchange] @ map ActivitiesPage [1 ..< Suc 3] =
      [TokenExchange, ActivitiesPage 1, ActivitiesPage 2, ActivitiesPage 3]"
    by (simp add: upt_rec)
  from pagination_ends_at_empty_page[where upstream = example_upstream and k = 3
      and allowedSports = None and mx = "Fin 300" and sent = "[TokenExchange]"] h k pre
  have "fetch_pages example_upstream None (Fin 300) 1 [] [TokenExchange] =
      Some (Inr (filter (kept None) (concat ?bs)),
            [TokenExchange] @ map ActivitiesPage [1 ..< Suc 3])"
    by blast
  then show ?thesis using h k sv unfolding acts pages by blast
qed

text \<open>
  C4. When the upstream serves the batches \<open>bs\<close> and then an empty page, or the batches
  hold enough kept activities to fill the cap, the loop returns the kept activities of
  the batches in their order, cut at the cap. Kept means: lower-cased classification in
  the allow-list, or no allow-list at all. The cut comes after the filter, so an
  activity that is filtered out takes no room under the cap.
\<close>

theorem accumulated_is_filtered_then_capped:
  assumes "served upstream 1 bs"
      and "jfetch (upstream (1 + length bs)) = Inr []
           \<or> nat \<lceil>r\<rceil> \<le> length (filter (kept allowedSports) (concat bs))"
  shows "\<exists>sent'. fetch_pages upstream allowedSports (Fin r) 1 [] sent =
           Some (Inr (take (nat \<lceil>r\<rceil>) (filter (kept allowedSports) (concat bs))), sent')"
proof -
  have stop: "jfetch (upstream (1 + length bs)) = Inr []
      \<or> nat \<lceil>r\<rceil> \<le> length ([]::activity list)
            + length (filter (kept allowedSports) (concat bs))"
    using assms(2) by simp
  from fetch_pages_served[where mx = "Fin r" and N = "nat \<lceil>r\<rceil>" and upstream = upstream
      and p = 1 and bs = bs and acts = "[]" and al = allowedSports and sent = sent,
      OF js_lt_Fin js_ge_Fin assms(1) stop]
  show ?thesis by auto
qed

theorem accumulated_is_filtered_then_capped_witness:
  "served example_upstream 1
     [[example_ride, example_run], [example_run, example_ride, example_run]]
   \<and> (\<exists>sent'. fetch_pages example_upstream (Some [''run'']) (Fin 2) 1 [] [] =
          Some (Inr [example_run, example_run], sent'))"
proof -
  let ?bs = "[[example_ride, example_run], [example_run, example_ride, example_run]]"
  have sv: "served example_upstream 1 ?bs"
    by (simp add: jfetch_def example_upstream_def)
  have stop: "jfetch (example_upstream (1 + length ?bs)) = Inr []
      \<or> nat \<lceil>2::real\<rceil> \<le> length (filter (kept (Some [''run''])) (concat ?bs))"
    by (simp add: jfetch_def example_upstream_def)
  have "take (nat \<lceil>2::real\<rceil>) (filter (kept (Some [''run''])) (concat ?bs)) =
      [example_run, example_run]"
    by (simp add: kept_def example_sports)
  with accumulated_is_filtered_then_capped[where upstream = example_upstream
      and bs = ?bs and r = 2 and allowedSports = "Some [''run'']" and sent = "[]", OF sv stop] sv
  show ?thesis by simp
qed

subsection \<open>Query parameters\<close>

lemma clamp_number:
  "v \<noteq> NaN \<Longrightarrow> lo \<le> hi \<Longrightarrow>
     number_between lo hi (Math_max (Fin lo) (Math_min (Fin hi) v))"
  by (cases v) (auto simp: number_between_def)

lemma clamp_integer:
  "lo \<le> hi \<Longrightarrow>
     integer_between lo hi
       (Math_max (Fin (of_int lo)) (Math_min (Fin (of_int hi)) (Fin (of_int n))))"
  by (auto simp: integer_between_def)

text \<open>
  C7, as stated, fails: a parameter that is not a number makes the effective value
  \<open>NaN\<close>, and a fractional parameter inside the range is taken as it is.
\<close>

theorem effective_values_counterexample:
  "\<not> integer_between 1 600 (max_of (example_query\<lparr>q_max := Some NaN\<rparr>))
   \<and> \<not> integer_between 1 365
         (sinceDays_of (example_query\<lparr>q_sinceDays := Some (Fin (5 / 2))\<rparr>))"
  by (simp add: integer_between_def max_of_def sinceDays_of_def nullish_or_def
        example_query_def)

text \<open>
  C7, amended. When neither parameter is \<open>NaN\<close>, the effective \<^verbatim>\<open>sinceDays\<close> is a number
  in \<open>[1, 365]\<close>, 90 when the parameter is absent, and the effective \<^verbatim>\<open>max\<close> is a number
  in \<open>[1, 600]\<close>, 300 when the parameter is absent; each is a whole number whenever the
  parameter supplied is one.
\<close>

theorem effective_values_clamped:
  assumes "q_sinceDays q \<noteq> Some NaN" and "q_max q \<noteq> Some NaN"
  shows "number_between 1 365 (sinceDays_of q) \<and> number_between 1 600 (max_of q)
       \<and> (q_sinceDays q = None \<longrightarrow> sinceDays_of q = Fin 90)
       \<and> (q_max q = None \<longrightarrow> max_of q = Fin 300)
       \<and> (\<forall>n. q_sinceDays q = Some (Fin (of_int n))
              \<longrightarrow> integer_between 1 365 (sinceDays_of q))
       \<and> (\<forall>n. q_max q = Some (Fin (of_int n)) \<longrightarrow> integer_between 1 600 (max_of q))"
proof -
  have a: "nullish_or (q_sinceDays q) (Fin 90) \<noteq> NaN" "nullish_or (q_max q) (Fin 300) \<noteq> NaN"
    using assms by (auto simp: nullish_or_def split: option.splits)
  have 1: "number_between 1 365 (sinceDays_of q)"
    unfolding sinceDays_of_def using clamp_number[OF a(1), of 1 365] by simp
  have 2: "number_between 1 600 (max_of q)"
    unfolding max_of_def using clamp_number[OF a(2), of 1 600] by simp
  have 3: "q_sinceDays q = None \<longrightarrow> sinceDays_of q = Fin 90"
    by (simp add: sinceDays_of_def nullish_or_def)
  have 4: "q_max q = None \<longrightarrow> max_of q = Fin 300"
    by (simp add: max_of_def nullish_or_def)
  have 5: "\<forall>n. q_sinceDays q = Some (Fin (of_int n))
      \<longrightarrow> integer_between 1 365 (sinceDays_of q)"
    using clamp_integer[of 1 365] by (simp add: sinceDays_of_def nullish_or_def)
  have 6: "\<forall>n. q_max q = Some (Fin (of_int n)) \<longrightarrow> integer_between 1 600 (max_of q)"
    using clamp_integer[of 1 600] by (simp add: max_of_def nullish_or_def)
  from 1 2 3 4 5 6 show ?thesis by blast
qed

theorem effective_values_clamped_witness:
  "q_sinceDays (example_query\<lparr>q_sinceDays := Some (Fin (of_int 1000))\<rparr>) \<noteq> Some NaN
   \<and> q_max (example_query\<lparr>q_sinceDays := Some (Fin (of_int 1000))\<rparr>) \<noteq> Some NaN
   \<and> number_between 1 365 (sinceDays_of (example_query\<lparr>q_sinceDays := Some (Fin (of_int 1000))\<rparr>))
   \<and> integer_between 1 365 (sinceDays_of (example_query\<lparr>q_sinceDays := Some (Fin (of_int 1000))\<rparr>))
   \<and> max_of (example_query\<lparr>q_sinceDays := Some (Fin (of_int 1000))\<rparr>) = Fin 300"
proof -
  let ?q = "example_query\<lparr>q_sinceDays := Some (Fin (of_int 1000))\<rparr>"
  have h1: "q_sinceDays ?q \<noteq> Some NaN" by simp
  have h2: "q_max ?q \<noteq> Some NaN" by (simp add: example_query_def)
  have s: "q_sinceDays ?q = Some (Fin (of_int 1000))" by simp
  have m: "q_max ?q = None" by (simp add: example_query_def)
  from effective_values_clamped[OF h1 h2] s m h1 h2 show ?thesis by blast
qed

subsection \<open>Credentials\<close>

text \<open>
  C8. When one of the three environment variables is missing or empty, obtaining the
  access token fails with the error \<^verbatim>\<open>Missing STRAVA env vars\<close> and no request has been
  sent: neither the token exchange nor a page of activities, also in the handler as a
  whole.
\<close>

theorem missing_credentials_no_request:
  assumes "falsy (STRAVA_CLIENT_ID e) \<or> falsy (STRAVA_CLIENT_SECRET e)
           \<or> falsy (STRAVA_REFRESH_TOKEN e)"
  shows "getAccessToken e = (Inl (Error ''Error'' ''Missing STRAVA env vars''), [])
       \<and> handler e q = Some (failure e (Error ''Error'' ''Missing STRAVA env vars''), [])"
proof -
  from assms have "getAccessToken e = (Inl (Error ''Error'' ''Missing STRAVA env vars''), [])"
    by (simp add: getAccessToken_def)
  then show ?thesis by (simp add: handler_def)
qed

theorem missing_credentials_no_request_witness:
  "falsy (STRAVA_REFRESH_TOKEN (example_env\<lparr>STRAVA_REFRESH_TOKEN := Some []\<rparr>))
   \<and> getAccessToken (example_env\<lparr>STRAVA_REFRESH_TOKEN := Some []\<rparr>) =
       (Inl (Error ''Error'' ''Missing STRAVA env vars''), [])
   \<and> handler (example_env\<lparr>STRAVA_REFRESH_TOKEN := Some []\<rparr>) example_query =
       Some (failure (example_env\<lparr>STRAVA_REFRESH_TOKEN := Some []\<rparr>)
               (Error ''Error'' ''Missing STRAVA env vars''), [])"
proof -
  let ?e = "example_env\<lparr>STRAVA_REFRESH_TOKEN := Some []\<rparr>"
  have h: "falsy (STRAVA_REFRESH_TOKEN ?e)" by (simp add: falsy_def)
  then have "falsy (STRAVA_CLIENT_ID ?e) \<or> falsy (STRAVA_CLIENT_SECRET ?e)
      \<or> falsy (STRAVA_REFRESH_TOKEN ?e)" by blast
  from missing_credentials_no_request[OF this, of example_query] h show ?thesis by blast
qed

subsection \<open>Start and end of an event\<close>

text \<open>
  C6, as stated, fails for a duration that carries the end past the last instant a
  \<^verbatim>\<open>Date\<close> can hold: the start is valid and the end is an invalid date.
\<close>

theorem event_end_counterexample:
  "event_start example_env (example_run\<lparr>elapsed_time := 10000000000000\<rparr>)
     = Some 1704096000000
   \<and> event_end example_env (example_run\<lparr>elapsed_time := 10000000000000\<rparr>) = None"
  by (simp add: event_start_def event_end_def TimeClip_def getTime_def example_env_def
        example_run_def)

text \<open>
  C6, amended. When the start of the activity parses to an instant \<open>t\<close>, the elapsed time
  is not negative and \<open>t\<close> plus the elapsed time, in milliseconds, is not beyond the last
  instant of a \<^verbatim>\<open>Date\<close>, the end of the event is \<open>t\<close> plus the elapsed time (not the moving
  time), however many days that is.
\<close>

theorem event_end_is_start_plus_elapsed:
  assumes "event_start e a = Some t"
      and "0 \<le> elapsed_time a"
      and "t + elapsed_time a * 1000 \<le> 8640000000000000"
  shows "event_end e a = Some (t + elapsed_time a * 1000)"
proof -
  from assms(1) have "\<bar>t\<bar> \<le> 8640000000000000"
    by (auto simp: event_start_def TimeClip_def split: option.splits if_splits)
  with assms(2,3) have "\<not> \<bar>t + elapsed_time a * 1000\<bar> > 8640000000000000"
    by linarith
  with assms(1) show ?thesis
    by (simp add: event_end_def getTime_def TimeClip_def)
qed

theorem event_end_is_start_plus_elapsed_witness:
  "event_start example_env example_ride = Some 1704096000000
   \<and> (0::int) \<le> elapsed_time example_ride
   \<and> elapsed_time example_ride = 200000 \<and> moving_time example_ride = 7200
   \<and> event_end example_env example_ride = Some 1704296000000"
proof -
  have st: "event_start example_env example_ride = Some 1704096000000"
    by (simp add: event_start_def TimeClip_def example_env_def example_ride_def)
  have el: "elapsed_time example_ride = 200000" "moving_time example_ride = 7200"
    by (simp_all add: example_ride_def)
  have nonneg: "0 \<le> elapsed_time example_ride" by (simp add: el)
  have bound: "1704096000000 + elapsed_time example_ride * 1000 \<le> 8640000000000000"
    by (simp add: el)
  from event_end_is_start_plus_elapsed[OF st nonneg bound] st el nonneg
  show ?thesis by simp
qed

subsection \<open>Classification\<close>

text \<open>
  C10, as stated, fails: an allow-list can hold the empty string, which a trailing comma
  in the \<^verbatim>\<open>sport\<close> parameter produces, and an activity without classification then
  passes the filter.
\<close>

theorem unclassified_counterexample:
  "allowedSports_of (example_query\<lparr>q_sport := Some (Single ''run,'')\<rparr>) = Some [''run'', []]
   \<and> \<not> truthy (sport_type example_unclassified)
   \<and> \<not> truthy (activity_type example_unclassified)
   \<and> \<not> skipped (Some [''run'', []]) example_unclassified"
  by (simp add: allowedSports_of_def sportsParam_def falsy_def nullish_or_def
        example_query_def trim_def is_space_def toLowerCase_def toLowerChar_def
        skipped_def sport_of_def js_or_def or_string_def
        example_unclassified_def example_ride_def)

text \<open>
  C10, amended. For an activity whose \<^verbatim>\<open>sport_type\<close> is missing or empty, the filter
  compares the lower-cased \<^verbatim>\<open>type\<close>, or the empty string when that is missing or empty
  too, and the first line of the description shows \<^verbatim>\<open>type\<close>. The empty classification
  is skipped by every allow-list that has no empty entry.
\<close>

theorem sport_type_falls_back_to_type:
  assumes "\<not> truthy (sport_type a)"
  shows "sport_of a = toLowerCase (or_string (activity_type a) [])
       \<and> skipped (Some l) a = (toLowerCase (or_string (activity_type a) []) \<notin> set l)
       \<and> hd (descParts a) = ''Sport: '' @ to_String (activity_type a)
       \<and> (\<not> truthy (activity_type a) \<longrightarrow> sport_of a = []
            \<and> ([] \<notin> set l \<longrightarrow> skipped (Some l) a))"
proof -
  from assms have or: "js_or (sport_type a) (activity_type a) = activity_type a"
    by (simp add: js_or_def)
  then have 1: "sport_of a = toLowerCase (or_string (activity_type a) [])"
    by (simp add: sport_of_def)
  have 2: "hd (descParts a) = ''Sport: '' @ to_String (activity_type a)"
    by (simp add: descParts_def or)
  have 3: "sport_of a = []" if "\<not> truthy (activity_type a)"
    using that unfolding 1
    by (cases "activity_type a") (simp_all add: or_string_def toLowerCase_def)
  from 1 2 3 show ?thesis by (auto simp: skipped_def)
qed

theorem sport_type_falls_back_to_type_witness:
  "\<not> truthy (sport_type example_ride)
   \<and> sport_of example_ride = ''ride''
   \<and> skipped (Some [''run'']) example_ride
   \<and> hd (descParts example_ride) = ''Sport: Ride''"
proof -
  have h: "\<not> truthy (sport_type example_ride)" by (simp add: example_ride_def)
  have t: "activity_type example_ride = Str ''Ride''" by (simp add: example_ride_def)
  have low: "toLowerCase (or_string (Str ''Ride'') []) = ''ride''"
    by (simp add: or_string_def toLowerCase_def toLowerChar_def)
  from sport_type_falls_back_to_type[OF h, of "[''run'']"] h show ?thesis
    by (simp add: t low)
qed

subsection \<open>Lines of the documents\<close>

lemma lines_of_line: "LF \<notin> set l \<Longrightarrow> lines_of l = [l]"
  by (induction l rule: lines_of.induct) (auto simp: LF_def CR_def)

lemma lines_of_append: "LF \<notin> set l \<Longrightarrow> lines_of (l @ CRLF @ s) = l # lines_of s"
proof (induction l rule: lines_of.induct)
  case (1 c d s')
  then show ?case by (auto simp: CRLF_def)
next
  case (2 c)
  then show ?case by (auto simp: CRLF_def)
next
  case 3
  then show ?case by (simp add: CRLF_def)
qed

lemma lines_of_join:
  "ls \<noteq> [] \<Longrightarrow> \<forall>l\<in>set ls. LF \<notin> set l \<Longrightarrow> lines_of (join CRLF ls) = ls"
proof (induction ls)
  case Nil
  then show ?case by simp
next
  case (Cons x xs)
  show ?case
  proof (cases xs)
    case Nil
    with Cons.prems show ?thesis by (simp add: lines_of_line)
  next
    case (Cons y ys)
    with Cons.IH Cons.prems have "lines_of (join CRLF xs) = xs" by simp
    with Cons Cons.prems show ?thesis by (simp add: lines_of_append)
  qed
qed

lemma join_Cons: "ys \<noteq> [] \<Longrightarrow> join sep (x # ys) = x @ sep @ join sep ys"
  by (cases ys) simp_all

lemma join_append:
  "xs \<noteq> [] \<Longrightarrow> ys \<noteq> [] \<Longrightarrow> join sep (xs @ ys) = join sep xs @ sep @ join sep ys"
proof (induction xs)
  case Nil then show ?case by simp
next
  case (Cons x xs)
  show ?case
  proof (cases xs)
    case Nil with Cons.prems show ?thesis by (simp add: join_Cons)
  next
    case (Cons x' xs')
    with Cons.IH Cons.prems show ?thesis by (simp add: join_Cons)
  qed
qed

lemma join_concat:
  "bs \<noteq> [] \<Longrightarrow> \<forall>b\<in>set bs. b \<noteq> [] \<Longrightarrow>
     join sep (map (join sep) bs) = join sep (concat bs)"
proof (induction bs)
  case Nil then show ?case by simp
next
  case (Cons b bs)
  show ?case
  proof (cases bs)
    case Nil then show ?thesis by simp
  next
    case (Cons b' bs')
    with Cons.IH Cons.prems have ih: "join sep (map (join sep) bs) = join sep (concat bs)"
      by simp
    have ne: "concat bs \<noteq> []" using Cons Cons.prems by auto
    have "join sep (map (join sep) (b # bs)) = join sep b @ sep @ join sep (map (join sep) bs)"
      using Cons by (simp add: join_Cons)
    also have "\<dots> = join sep (b @ concat bs)"
      using Cons.prems ne by (simp add: ih join_append)
    finally show ?thesis by simp
  qed
qed

lemma set_replaceAll: "set (replaceAll p r s) \<subseteq> (set s - {p}) \<union> set r"
  by (induction s) (auto simp: replaceAll_Cons replaceAll_Nil)

lemma LF_icsEscape: "LF \<notin> set (icsEscape s)"
proof -
  let ?a = "replaceAll BSL [BSL, BSL] s"
  let ?b = "replaceAll LF [BSL, CHR ''n''] ?a"
  let ?c = "replaceAll (CHR '','') [BSL, CHR '',''] ?b"
  have b: "LF \<notin> set ?b" using set_replaceAll[of LF "[BSL, CHR ''n'']" ?a]
    by (auto simp: LF_def BSL_def)
  have c: "LF \<notin> set ?c" using set_replaceAll[of "CHR '',''" "[BSL, CHR '','']" ?b] b
    by (auto simp: LF_def BSL_def)
  show ?thesis unfolding icsEscape_def
    using set_replaceAll[of "CHR '';''" "[BSL, CHR '';'']" ?c] c
    by (auto simp: LF_def BSL_def)
qed

lemma digit_nth: "d < 10 \<Longrightarrow> ''0123456789'' ! d \<noteq> LF"
proof -
  assume "d < 10"
  then have "''0123456789'' ! d \<in> set ''0123456789''" by (intro nth_mem) simp
  then show ?thesis by (auto simp: LF_def)
qed

lemma LF_show_nat: "LF \<notin> set (show_nat n)"
proof (induction n rule: show_nat.induct)
  case (1 n)
  show ?case
  proof (cases "n < 10")
    case True
    then show ?thesis using digit_nth[of n] by (subst show_nat.simps) simp
  next
    case False
    have "n mod 10 < 10" by simp
    from digit_nth[OF this] 1[OF False] False show ?thesis
      by (subst show_nat.simps) simp
  qed
qed

lemma LF_literal:
  "LF \<noteq> CHR ''-''" "LF \<noteq> CHR ''0''" "LF \<noteq> CHR ''N''" "LF \<noteq> CHR ''a''"
  "LF \<noteq> CHR ''T''" "LF \<noteq> CHR ''Z''"
  by (simp_all add: LF_def)

lemma LF_show_int: "LF \<notin> set (show_int i)"
  by (simp add: show_int_def LF_show_nat LF_literal)

lemma LF_show_num: "LF \<notin> set (show_num v)"
  by (cases v) (simp_all add: show_num_def LF_show_int LF_literal)

lemma LF_pad: "LF \<notin> set (pad v)"
  by (simp add: pad_def padStart2_def LF_show_num LF_literal)

lemma LF_formatAsUTC: "LF \<notin> set (formatAsUTC d)"
  by (simp add: formatAsUTC_def LF_show_num LF_pad LF_literal)

lemma single_line_simps:
  "single_line []"
  "single_line (c # s) = (c \<noteq> LF \<and> single_line s)"
  "single_line (s @ t) = (single_line s \<and> single_line t)"
  by (auto simp: single_line_def)

lemma single_line_parts:
  "single_line (icsEscape s)" "single_line (show_int i)" "single_line (formatAsUTC d)"
  by (simp_all add: single_line_def LF_icsEscape LF_show_int LF_formatAsUTC)

lemma event_lines_eq:
  "event_lines e a = ''BEGIN:VEVENT'' # event_properties e a @ [''END:VEVENT'']"
  by (simp add: event_lines_def event_properties_def)

lemma event_properties_single:
  "l \<in> set (event_properties e a) \<Longrightarrow> single_line l"
  by (auto simp: event_properties_def single_line_simps single_line_parts
        event_uid_def event_url_def event_description_def event_location_def LF_def
        split: if_splits)

lemma event_properties_property:
  "l \<in> set (event_properties e a) \<Longrightarrow> property_line l"
  by (auto simp: event_properties_def property_line_def split: if_splits)

lemma event_lines_single: "l \<in> set (event_lines e a) \<Longrightarrow> single_line l"
  using event_properties_single[of l e a]
  by (auto simp: event_lines_eq single_line_simps LF_def)

lemma parse_properties:
  "\<forall>l\<in>set ps. property_line l \<Longrightarrow>
     parse_lines (Some ev) cal (ps @ rest) = parse_lines (Some (ev @ ps)) cal rest"
proof (induction ps arbitrary: ev)
  case Nil
  show ?case by simp
next
  case (Cons l ps)
  then have p: "property_line l" by simp
  then have "l \<noteq> ''END:VEVENT''" by (auto simp: property_line_def)
  with p Cons show ?case by simp
qed

lemma parse_event:
  "parse_lines None cal (event_lines e a @ rest) =
     parse_lines None (Calendar (properties cal) (events cal @ [event_properties e a])) rest"
  using parse_properties[of "event_properties e a" "[]" cal "''END:VEVENT'' # rest"]
    event_properties_property[of _ e a]
  by (simp add: event_lines_eq)

lemma parse_events:
  "parse_lines None cal (concat (map (event_lines e) acts) @ rest) =
     parse_lines None
       (Calendar (properties cal) (events cal @ map (event_properties e) acts)) rest"
proof (induction acts arbitrary: cal)
  case Nil
  show ?case by simp
next
  case (Cons a acts)
  show ?case by (simp add: parse_event Cons)
qed

lemma ics_document_empty:
  "ics_document e [] = join CRLF (envelope_open @ [[], ''END:VCALENDAR''])"
  by (simp add: ics_document_def envelope_open_def prodId_def calName_def)

lemma ics_document_lines:
  assumes "acts \<noteq> []"
  shows "ics_document e acts =
     join CRLF (envelope_open @ concat (map (event_lines e) acts) @ [''END:VCALENDAR''])"
proof -
  let ?blocks = "map (event_lines e) acts"
  have ne: "?blocks \<noteq> []" "\<forall>b\<in>set ?blocks. b \<noteq> []" "concat ?blocks \<noteq> []"
    using assms by (auto simp: event_lines_eq)
  have ev: "join CRLF (map (buildEvent e) acts) = join CRLF (concat ?blocks)"
    using join_concat[OF ne(1,2), of CRLF] by (simp add: buildEvent_def[abs_def] comp_def)
  have open_ne: "envelope_open \<noteq> []" by (simp add: envelope_open_def)
  have "join CRLF (concat ?blocks @ [''END:VCALENDAR'']) =
      join CRLF (concat ?blocks) @ CRLF @ ''END:VCALENDAR''"
    using join_append[OF ne(3), of "[''END:VCALENDAR'']" CRLF] by simp
  with join_append[OF open_ne, of "concat ?blocks @ [''END:VCALENDAR'']" CRLF]
  have "join CRLF (envelope_open @ concat ?blocks @ [''END:VCALENDAR'']) =
      join CRLF envelope_open @ CRLF @ join CRLF (concat ?blocks) @ CRLF @ ''END:VCALENDAR''"
    by simp
  also have "\<dots> = ics_document e acts"
    by (simp add: ics_document_def envelope_open_def prodId_def calName_def ev Let_def)
  finally show ?thesis by simp
qed

lemma lines_of_ics_document:
  assumes "acts \<noteq> []"
  shows "lines_of (ics_document e acts) =
     envelope_open @ concat (map (event_lines e) acts) @ [''END:VCALENDAR'']"
proof -
  have "\<forall>l\<in>set (envelope_open @ concat (map (event_lines e) acts) @ [''END:VCALENDAR'']).
      LF \<notin> set l"
    using event_lines_single[of _ e] by (auto simp: envelope_open_def single_line_def LF_def)
  then show ?thesis
    unfolding ics_document_lines[OF assms] by (intro lines_of_join) simp_all
qed

lemma parse_ics_document:
  assumes "acts \<noteq> []"
  shows "parse_calendar (ics_document e acts) =
     Some (Calendar (tl envelope_open) (map (event_properties e) acts))"
  unfolding parse_calendar_def lines_of_ics_document[OF assms]
  by (simp add: envelope_open_def property_line_def parse_events)

lemma lines_of_empty_document:
  "lines_of (ics_document e []) = envelope_open @ [[], ''END:VCALENDAR'']"
  unfolding ics_document_empty
  by (intro lines_of_join) (auto simp: envelope_open_def LF_def)

lemma parse_empty_document: "parse_calendar (ics_document e []) = None"
  unfolding parse_calendar_def lines_of_empty_document
  by (simp add: envelope_open_def property_line_def)

lemma error_document_join:
  "error_document e err =
     join CRLF
       [''BEGIN:VCALENDAR'', ''PRODID:-//Strava ICS Error//EN'', ''VERSION:2.0'',
        ''BEGIN:VEVENT'', ''SUMMARY:Strava ICS Error'',
        ''DESCRIPTION:'' @ icsEscape (error_text err),
        ''DTSTART:'' @ formatAsUTC (Some (clock e)),
        ''DTEND:'' @ formatAsUTC (TimeClip (Some (clock e + 600000))),
        ''END:VEVENT'', ''END:VCALENDAR'']"
  by (simp add: error_document_def)

lemma lines_of_error_document:
  "lines_of (error_document e err) =
       [''BEGIN:VCALENDAR'', ''PRODID:-//Strava ICS Error//EN'', ''VERSION:2.0'',
        ''BEGIN:VEVENT'', ''SUMMARY:Strava ICS Error'',
        ''DESCRIPTION:'' @ icsEscape (error_text err),
        ''DTSTART:'' @ formatAsUTC (Some (clock e)),
        ''DTEND:'' @ formatAsUTC (TimeClip (Some (clock e + 600000))),
        ''END:VEVENT'', ''END:VCALENDAR'']"
proof -
  have a: "LF \<notin> set (''DESCRIPTION:'' @ icsEscape (error_text err))"
    "LF \<notin> set (''DTSTART:'' @ formatAsUTC (Some (clock e)))"
    "LF \<notin> set (''DTEND:'' @ formatAsUTC (TimeClip (Some (clock e + 600000))))"
    using single_line_parts by (simp_all add: single_line_def) (simp_all add: LF_def)
  show ?thesis unfolding error_document_join
    by (intro lines_of_join) (use a in \<open>auto simp: LF_def\<close>)
qed

lemma parse_error_document:
  "parse_calendar (error_document e err) =
     Some (Calendar [''PRODID:-//Strava ICS Error//EN'', ''VERSION:2.0'']
             [[''SUMMARY:Strava ICS Error'',
               ''DESCRIPTION:'' @ icsEscape (error_text err),
               ''DTSTART:'' @ formatAsUTC (Some (clock e)),
               ''DTEND:'' @ formatAsUTC (TimeClip (Some (clock e + 600000)))]])"
  unfolding parse_calendar_def lines_of_error_document
  by (simp add: property_line_def)

subsection \<open>The example of the specification\<close>

text \<open>
  The activity of the single-activity scenario: a run of 5000 m in 1830 s, starting on
  1 January 2024 at 08:00:00 UTC in Vienna. The model gives the lines that the
  specification expects.
\<close>

lemma example_run_event:
  "event_lines example_env example_run =
     [''BEGIN:VEVENT'',
      ''UID:42@strava-ics'',
      ''DTSTAMP:20240101T090640Z'',
      ''DTSTART:20240101T080000Z'',
      ''DTEND:20240101T083030Z'',
      ''SUMMARY:Strava: Morning Run'',
      ''LOCATION:Vienna'',
      ''DESCRIPTION:Sport: Run'' @ [BSL] @ ''nDistance: 5.00 km'' @ [BSL]
        @ ''nMoving: 00:30:00'' @ [BSL] @ ''nElapsed: 00:30:30'' @ [BSL]
        @ ''nElevation: 30 m'' @ [BSL] @ ''nhttps://www.strava.com/activities/42'',
      ''URL:https://www.strava.com/activities/42'',
      ''END:VEVENT'']"
  by code_simp

subsection \<open>The feed\<close>

lemma max_of_at_least_one: "max_of q = Fin r \<Longrightarrow> 1 \<le> r"
  by (cases "nullish_or (q_max q) (Fin 300)") (auto simp: max_of_def split: if_splits)

lemma handler_fetched:
  "getAccessToken e = (Inr token, sent) \<Longrightarrow>
   fetch_pages (activities_endpoint e token (sinceDays_of q)) (allowedSports_of q) (max_of q)
     1 [] sent = Some (Inr acts, sent') \<Longrightarrow>
     handler e q = Some (success e acts, sent')"
  by (simp add: handler_def)

lemma handler_fetch_failed:
  "getAccessToken e = (Inr token, sent) \<Longrightarrow>
   fetch_pages (activities_endpoint e token (sinceDays_of q)) (allowedSports_of q) (max_of q)
     1 [] sent = Some (Inl err, sent') \<Longrightarrow>
     handler e q = Some (failure e err, sent')"
  by (simp add: handler_def)

lemma example_token: "getAccessToken example_env = (Inr ''token'', [TokenExchange])"
  by (simp add: getAccessToken_def example_env_def falsy_def jfetch_def)

text \<open>
  C1 does not hold of the program. For an account without activities the handler
  answers with the header lines, an empty line and the closing line: the empty string of
  the events is still an element of the array that is joined.
\<close>

theorem empty_account_has_empty_line:
  "handler empty_account_env example_query =
     Some (success empty_account_env [], [TokenExchange, ActivitiesPage 1])
   \<and> content (success empty_account_env []) =
       join CRLF envelope_open @ CRLF @ CRLF @ ''END:VCALENDAR''
   \<and> lines_of (content (success empty_account_env [])) =
       envelope_open @ [[], ''END:VCALENDAR'']"
proof -
  have tok: "getAccessToken empty_account_env = (Inr ''token'', [TokenExchange])"
    by (simp add: getAccessToken_def empty_account_env_def example_env_def falsy_def
          jfetch_def)
  have mx: "max_of example_query = Fin 300"
    by (simp add: max_of_def example_query_def nullish_or_def)
  have "fetch_pages (activities_endpoint empty_account_env ''token''
          (sinceDays_of example_query)) (allowedSports_of example_query)
          (max_of example_query) 1 [] [TokenExchange] =
        Some (Inr [], [TokenExchange] @ [ActivitiesPage 1])"
    by (rule fetch_pages_empty)
      (simp_all add: mx num_of_length_def empty_account_env_def jfetch_def)
  with handler_fetched[OF tok] have 1: "handler empty_account_env example_query =
      Some (success empty_account_env [], [TokenExchange, ActivitiesPage 1])"
    by simp
  have 2: "content (success empty_account_env []) =
      join CRLF envelope_open @ CRLF @ CRLF @ ''END:VCALENDAR''"
    by (simp add: success_def ics_document_empty envelope_open_def)
  have 3: "lines_of (content (success empty_account_env [])) =
      envelope_open @ [[], ''END:VCALENDAR'']"
    by (simp add: success_def lines_of_empty_document)
  from 1 2 3 show ?thesis by blast
qed

text \<open>
  C2. With an effective cap \<open>N\<close>, a token, and an upstream whose pages hold more than
  \<open>N\<close> kept activities, the handler answers with the first \<open>N\<close> kept activities in
  the order of the pages, and the document it sends reads as a calendar with exactly
  \<open>N\<close> events.
\<close>

theorem cap_enforced:
  assumes "getAccessToken e = (Inr token, sent)"
      and "max_of q = Fin (real N)"
      and "served (activities_endpoint e token (sinceDays_of q)) 1 bs"
      and "N < length (filter (kept (allowedSports_of q)) (concat bs))"
  shows "\<exists>acts sent' cal.
           handler e q = Some (success e acts, sent')
         \<and> acts = take N (filter (kept (allowedSports_of q)) (concat bs))
         \<and> length acts = N
         \<and> parse_calendar (content (success e acts)) = Some cal
         \<and> length (events cal) = N"
proof -
  let ?acts = "take N (filter (kept (allowedSports_of q)) (concat bs))"
  have lt: "\<And>n. js_lt (num_of_length n) (Fin (real N)) = (n < N)"
    and ge: "\<And>n. js_ge (num_of_length n) (Fin (real N)) = (N \<le> n)"
    by (auto simp: num_of_length_def)
  have stop: "jfetch (activities_endpoint e token (sinceDays_of q) (1 + length bs)) = Inr []
      \<or> N \<le> length ([]::activity list)
            + length (filter (kept (allowedSports_of q)) (concat bs))"
    using assms(4) by simp
  from fetch_pages_served[where mx = "Fin (real N)" and N = N
      and upstream = "activities_endpoint e token (sinceDays_of q)" and p = 1 and bs = bs
      and acts = "[]" and al = "allowedSports_of q" and sent = sent, OF lt ge assms(3) stop]
  obtain sent' where "fetch_pages (activities_endpoint e token (sinceDays_of q))
      (allowedSports_of q) (max_of q) 1 [] sent = Some (Inr ?acts, sent')"
    unfolding assms(2) by auto
  from handler_fetched[OF assms(1) this]
  have run: "handler e q = Some (success e ?acts, sent')" .
  have len: "length ?acts = N" using assms(4) by simp
  from max_of_at_least_one[OF assms(2)] have "1 \<le> N" by simp
  with len have "?acts \<noteq> []" by auto
  from parse_ics_document[OF this, of e]
  have "parse_calendar (content (success e ?acts)) =
      Some (Calendar (tl envelope_open) (map (event_properties e) ?acts))"
    by (simp add: success_def)
  moreover have "length (events (Calendar (tl envelope_open)
      (map (event_properties e) ?acts))) = N"
    using len by simp
  ultimately show ?thesis using run len by blast
qed

theorem cap_enforced_witness:
  "getAccessToken example_env = (Inr ''token'', [TokenExchange])
   \<and> max_of (example_query\<lparr>q_max := Some (Fin 3)\<rparr>) = Fin (real 3)
   \<and> served (activities_endpoint example_env ''token''
               (sinceDays_of (example_query\<lparr>q_max := Some (Fin 3)\<rparr>))) 1
        [[example_ride, example_run], [example_run, example_ride, example_run]]
   \<and> (\<exists>sent' cal.
         handler example_env (example_query\<lparr>q_max := Some (Fin 3)\<rparr>) =
           Some (success example_env [example_ride, example_run, example_run], sent')
       \<and> parse_calendar
           (content (success example_env [example_ride, example_run, example_run]))
          = Some cal
       \<and> length (events cal) = 3)"
proof -
  let ?q = "example_query\<lparr>q_max := Some (Fin 3)\<rparr>"
  let ?bs = "[[example_ride, example_run], [example_run, example_ride, example_run]]"
  have al: "allowedSports_of ?q = None"
    by (simp add: allowedSports_of_def sportsParam_def falsy_def example_query_def)
  have mx: "max_of ?q = Fin (real 3)"
    by (simp add: max_of_def nullish_or_def)
  have sv: "served (activities_endpoint example_env ''token'' (sinceDays_of ?q)) 1 ?bs"
    by (simp add: example_env_def example_upstream_def jfetch_def)
  have more: "3 < length (filter (kept (allowedSports_of ?q)) (concat ?bs))"
    by (simp add: al kept_def)
  have tk: "take 3 (filter (kept (allowedSports_of ?q)) (concat ?bs)) =
      [example_ride, example_run, example_run]"
    by (simp add: al kept_def)
  from cap_enforced[OF example_token mx sv more]
  show ?thesis using example_token mx sv unfolding tk by blast
qed

lemma failure_reply:
  assumes "getAccessToken e = (Inl err, sent)
         \<or> (\<exists>token sent0. getAccessToken e = (Inr token, sent0)
              \<and> fetch_pages (activities_endpoint e token (sinceDays_of q))
                   (allowedSports_of q) (max_of q) 1 [] sent0 = Some (Inl err, sent))"
  shows "handler e q = Some (failure e err, sent)"
  using assms
proof
  assume "getAccessToken e = (Inl err, sent)"
  then show ?thesis by (simp add: handler_def)
next
  assume "\<exists>token sent0. getAccessToken e = (Inr token, sent0)
      \<and> fetch_pages (activities_endpoint e token (sinceDays_of q))
           (allowedSports_of q) (max_of q) 1 [] sent0 = Some (Inl err, sent)"
  then show ?thesis using handler_fetch_failed by blast
qed

text \<open>A feed with an event meets the conditions of RFC 5545 that are checked here.\<close>

lemma feed_conforming:
  "rfc5545_conforming (content (success example_env [example_run]))"
  by code_simp

text \<open>
  C9 does not hold of the program. Every failure is answered with the error document,
  which is not empty and has exactly one event whose description is the escaped message
  (\<open>failure_reply\<close>, \<open>parse_error_document\<close>), but that document is not a valid calendar:
  its event has neither \<^verbatim>\<open>UID\<close> nor \<^verbatim>\<open>DTSTAMP\<close>, which the events of the feed have, and a
  carriage return of the message is not escaped. When a gateway answers the second page
  with status 502 and a body of two lines, the description holds a bare carriage return.
\<close>

theorem error_calendar_not_conforming:
  "handler bad_gateway_env example_query =
     Some (failure bad_gateway_env bad_gateway_error,
           [TokenExchange, ActivitiesPage 1, ActivitiesPage 2])
   \<and> lines_of (content (failure bad_gateway_env bad_gateway_error)) =
       [''BEGIN:VCALENDAR'', ''PRODID:-//Strava ICS Error//EN'', ''VERSION:2.0'',
        ''BEGIN:VEVENT'', ''SUMMARY:Strava ICS Error'',
        ''DESCRIPTION:502 Bad Gateway: upstream down'' @ [CR, BSL] @ ''nretry later'',
        ''DTSTART:20240101T090640Z'', ''DTEND:20240101T091640Z'',
        ''END:VEVENT'', ''END:VCALENDAR'']
   \<and> \<not> conforming_line
         (''DESCRIPTION:502 Bad Gateway: upstream down'' @ [CR, BSL] @ ''nretry later'')
   \<and> \<not> rfc5545_conforming (content (failure bad_gateway_env bad_gateway_error))
   \<and> \<not> rfc5545_conforming (content (failure e err))"
proof -
  have tok: "getAccessToken bad_gateway_env = (Inr ''token'', [TokenExchange])"
    by (simp add: getAccessToken_def bad_gateway_env_def example_env_def falsy_def
          jfetch_def)
  have mx: "max_of example_query = Fin 300"
    by (simp add: max_of_def example_query_def nullish_or_def)
  have up: "activities_endpoint bad_gateway_env ''token'' (sinceDays_of example_query) =
      bad_gateway_upstream"
    by (simp add: bad_gateway_env_def)
  have al: "allowedSports_of example_query = None"
    by (simp add: allowedSports_of_def sportsParam_def falsy_def example_query_def)
  have p1: "jfetch (bad_gateway_upstream (Suc 0)) = Inr [example_ride, example_run]"
    by (simp add: bad_gateway_upstream_def jfetch_def)
  have "show_nat 502 = ''502''" by code_simp
  then have p2: "jfetch (bad_gateway_upstream (Suc (Suc 0))) = Inl bad_gateway_error"
    by (simp add: bad_gateway_upstream_def jfetch_def bad_gateway_error_def)
  have lt: "\<And>n. js_lt (num_of_length n) (Fin 300) = (n < 300)"
    and ge: "\<And>n. js_ge (num_of_length n) (Fin 300) = (300 \<le> n)"
    by (auto simp: num_of_length_def)
  have "fetch_pages bad_gateway_upstream None (Fin 300) 1 [] [TokenExchange] =
      fetch_pages bad_gateway_upstream None (Fin 300) (Suc 1)
        (push_batch None (Fin 300) [example_ride, example_run] [])
        ([TokenExchange] @ [ActivitiesPage 1])"
    by (rule fetch_pages_next) (simp_all add: lt p1)
  also have "\<dots> = Some (Inl bad_gateway_error, ([TokenExchange] @ [ActivitiesPage 1])
      @ [ActivitiesPage (Suc 1)])"
    by (rule fetch_pages_error) (simp_all add: lt ge p2 skipped_def)
  finally have "fetch_pages
      (activities_endpoint bad_gateway_env ''token'' (sinceDays_of example_query))
      (allowedSports_of example_query) (max_of example_query) 1 [] [TokenExchange] =
      Some (Inl bad_gateway_error, [TokenExchange, ActivitiesPage 1, ActivitiesPage 2])"
    by (simp add: up al mx)
  from handler_fetch_failed[OF tok this]
  have 1: "handler bad_gateway_env example_query =
      Some (failure bad_gateway_env bad_gateway_error,
            [TokenExchange, ActivitiesPage 1, ActivitiesPage 2])" .
  have esc: "icsEscape (error_text bad_gateway_error) =
      ''502 Bad Gateway: upstream down'' @ [CR, BSL] @ ''nretry later''"
    by code_simp
  have t1: "formatAsUTC (Some (clock bad_gateway_env)) = ''20240101T090640Z''"
    by code_simp
  have t2: "formatAsUTC (TimeClip (Some (clock bad_gateway_env + 600000))) =
      ''20240101T091640Z''"
    by code_simp
  have 2: "lines_of (content (failure bad_gateway_env bad_gateway_error)) =
       [''BEGIN:VCALENDAR'', ''PRODID:-//Strava ICS Error//EN'', ''VERSION:2.0'',
        ''BEGIN:VEVENT'', ''SUMMARY:Strava ICS Error'',
        ''DESCRIPTION:502 Bad Gateway: upstream down'' @ [CR, BSL] @ ''nretry later'',
        ''DTSTART:20240101T090640Z'', ''DTEND:20240101T091640Z'',
        ''END:VEVENT'', ''END:VCALENDAR'']"
    by (simp add: failure_def lines_of_error_document esc t1 t2)
  have 3: "\<not> conforming_line
      (''DESCRIPTION:502 Bad Gateway: upstream down'' @ [CR, BSL] @ ''nretry later'')"
    by (simp add: conforming_line_def control_char_def CR_def)
  have 4: "\<not> rfc5545_conforming (content (failure e' err'))" for e' err'
    by (simp add: rfc5545_conforming_def failure_def parse_error_document has_property_def
          line_name_def)
  from 1 2 3 4 show ?thesis by blast
qed

end
